theory Spec2Isabelle
  imports Main "HOL-Library.Sublist"
begin

section \<open>Python strings\<close>

text \<open>
  A Python \<open>str\<close> is a sequence of Unicode code points and \<open>len\<close> counts code points,
  so a string is modelled as a list of code points (natural numbers).  A literal of the
  source is written \<open>str ''...''\<close>.
\<close>

type_synonym pychar = nat
type_synonym pystr = "pychar list"

abbreviation str :: "string \<Rightarrow> pystr" where
  "str s \<equiv> map of_char s"

abbreviation NL :: pychar where
  "NL \<equiv> 0x0A"

text \<open>
  \<open>str.isspace\<close> on one code point; \<open>str.strip()\<close> and the class \<open>\s\<close> of \<open>re\<close>
  (on \<open>str\<close> patterns) use the same set of code points.
\<close>

definition isspace :: "pychar \<Rightarrow> bool" where
  "isspace c =
     ((0x09 \<le> c \<and> c \<le> 0x0D) \<or> (0x1C \<le> c \<and> c \<le> 0x20) \<or> c = 0x85 \<or> c = 0xA0 \<or>
      c = 0x1680 \<or> (0x2000 \<le> c \<and> c \<le> 0x200A) \<or> c = 0x2028 \<or> c = 0x2029 \<or>
      c = 0x202F \<or> c = 0x205F \<or> c = 0x3000)"

text \<open>\<open>s.strip()\<close>: leading and trailing whitespace removed.\<close>

definition strip :: "pystr \<Rightarrow> pystr" where
  "strip s = rev (dropWhile isspace (rev (dropWhile isspace s)))"

text \<open>\<open>s.split(c)\<close> for a one-character separator: never the empty list.\<close>

fun split_on :: "pychar \<Rightarrow> pystr \<Rightarrow> pystr list" where
  "split_on c [] = [[]]"
| "split_on c (x # xs) =
     (if x = c then [] # split_on c xs
      else (case split_on c xs of l # ls \<Rightarrow> (x # l) # ls | [] \<Rightarrow> [[x]]))"

text \<open>\<open>sep.join(ls)\<close>.\<close>

fun join :: "pystr \<Rightarrow> pystr list \<Rightarrow> pystr" where
  "join sep [] = []"
| "join sep [l] = l"
| "join sep (l # l' # ls) = l @ sep @ join sep (l' # ls)"

text \<open>
  \<open>str.lower\<close> and \<open>str.isalnum\<close> read the Unicode character database, which is not part
  of the program: the functions below take them as parameters.  For concrete evaluations
  their restrictions to ASCII are used.
\<close>

definition ascii_lower :: "pystr \<Rightarrow> pystr" where
  "ascii_lower s = map (\<lambda>c. if 0x41 \<le> c \<and> c \<le> 0x5A then c + 0x20 else c) s"

definition ascii_isalnum :: "pychar \<Rightarrow> bool" where
  "ascii_isalnum c =
     ((0x30 \<le> c \<and> c \<le> 0x39) \<or> (0x41 \<le> c \<and> c \<le> 0x5A) \<or> (0x61 \<le> c \<and> c \<le> 0x7A))"

text \<open>The class \<open>\w\<close> of \<open>re\<close>: alphanumeric code points and the underscore.\<close>

definition is_word :: "(pychar \<Rightarrow> bool) \<Rightarrow> pychar \<Rightarrow> bool" where
  "is_word isalnum c = (isalnum c \<or> c = of_char CHR ''_'')"


section \<open>The regular expressions of the program\<close>

text \<open>
  Every pattern of the program is a sequence of character classes, each with a greedy
  quantifier, possibly between \<open>^\<close> and \<open>$\<close>.  An item \<open>(P, lo, hi)\<close> is the class \<open>P\<close>
  repeated at least \<open>lo\<close> and at most \<open>hi\<close> times (\<open>None\<close>: unbounded).
  \<open>match_here\<close> is the backtracking matcher of \<open>re\<close> at the start of \<open>s\<close>: an item first
  takes as many characters as it can and gives them back one by one while the rest of the
  pattern fails; the result is the length of the match.  The flag says whether the
  pattern ends in \<open>$\<close>, which matches at the end of the string and before a final newline.
\<close>

type_synonym item = "(pychar \<Rightarrow> bool) \<times> nat \<times> nat option"

fun first_some :: "('a \<Rightarrow> 'b option) \<Rightarrow> 'a list \<Rightarrow> 'b option" where
  "first_some f [] = None"
| "first_some f (x # xs) = (case f x of Some y \<Rightarrow> Some y | None \<Rightarrow> first_some f xs)"

fun match_here :: "item list \<Rightarrow> bool \<Rightarrow> pystr \<Rightarrow> nat option" where
  "match_here [] dollar s =
     (if dollar then (if s = [] \<or> s = [NL] then Some 0 else None) else Some 0)"
| "match_here ((P, lo, hi) # its) dollar s =
     (let avail = length (takeWhile P s);
          mx = (case hi of None \<Rightarrow> avail | Some h \<Rightarrow> min h avail)
      in first_some (\<lambda>n. map_option (\<lambda>m. n + m) (match_here its dollar (drop n s)))
           (rev [lo..<Suc mx]))"

text \<open>\<open>re.match(pattern, s)\<close> as a truth value, for a pattern written \<open>^...$\<close>.\<close>

definition re_match :: "item list \<Rightarrow> pystr \<Rightarrow> bool" where
  "re_match its s = (match_here its True s \<noteq> None)"

text \<open>
  \<open>re.sub(pattern, rep, s)\<close> for a pattern without anchors that cannot match the empty
  string (all the patterns the program substitutes): the string is scanned from the left,
  a match is replaced and the scan goes on behind it, a character where nothing matches
  is kept.
\<close>

function re_sub :: "item list \<Rightarrow> pystr \<Rightarrow> pystr \<Rightarrow> pystr" where
  "re_sub its rep [] = []"
| "re_sub its rep (x # xs) =
     (case match_here its False (x # xs) of
        Some (Suc n) \<Rightarrow> rep @ re_sub its rep (drop n xs)
      | _ \<Rightarrow> x # re_sub its rep xs)"
  by pat_completeness auto
termination
  by (relation "measure (\<lambda>(its, rep, s). length s)") auto

text \<open>
  \<open>re.sub\<close> for a pattern that starts with \<open>^\<close> (no \<open>MULTILINE\<close> flag): it can only match
  at the start of the string.
\<close>

definition re_sub_start :: "item list \<Rightarrow> pystr \<Rightarrow> pystr \<Rightarrow> pystr" where
  "re_sub_start its rep s =
     (case match_here its False s of Some n \<Rightarrow> rep @ drop n s | None \<Rightarrow> s)"

definition lit :: "char \<Rightarrow> item" where
  "lit c = (\<lambda>x. x = of_char c, 1, Some 1)"

definition opt :: "char \<Rightarrow> item" where
  "opt c = (\<lambda>x. x = of_char c, 0, Some 1)"

text \<open>\<open>c{k,}\<close> for one character \<open>c\<close>.\<close>

definition run_of :: "char \<Rightarrow> nat \<Rightarrow> item" where
  "run_of c k = (\<lambda>x. x = of_char c, k, None)"


section \<open>utils.py\<close>

subsection \<open>clean_text\<close>

text \<open>The class \<open>[\x00-\x08\x0B\x0C\x0E-\x1F\x7F-\x9F]\<close>.\<close>

definition is_control :: "pychar \<Rightarrow> bool" where
  "is_control c =
     (c \<le> 0x08 \<or> c = 0x0B \<or> c = 0x0C \<or> (0x0E \<le> c \<and> c \<le> 0x1F) \<or> (0x7F \<le> c \<and> c \<le> 0x9F))"

definition clean_text :: "pystr \<Rightarrow> pystr" where
  "clean_text text =
     (if text = [] then []
      else
        let text = re_sub [(isspace, 1, None)] (str '' '') text;
            text = re_sub [(is_control, 1, Some 1)] [] text;
            text = re_sub [lit CHR 0x0A, (isspace, 0, None), lit CHR 0x0A,
                           (isspace, 0, None), run_of CHR 0x0A 1] [NL, NL] text;
            text = re_sub [run_of CHR 0x09 1] (str '' '') text;
            text = re_sub [run_of CHR ''.'' 3] (str ''...'') text;
            text = re_sub [run_of CHR ''-'' 3] (str ''---'') text
        in strip text)"

subsection \<open>Documents\<close>

text \<open>
  A LangChain \<open>Document\<close>: its text and its metadata dictionary.  All metadata values of
  the program are strings.
\<close>

record document =
  page_content :: pystr
  metadata :: "pystr \<rightharpoonup> pystr"

text \<open>\<open>d.get(key, default)\<close>.\<close>

definition dict_get :: "(pystr \<rightharpoonup> pystr) \<Rightarrow> pystr \<Rightarrow> pystr \<Rightarrow> pystr" where
  "dict_get d key dflt = (case d key of Some v \<Rightarrow> v | None \<Rightarrow> dflt)"

subsection \<open>save_docs_to_json\<close>

text \<open>
  One element of the JSON array that is written, with the keys \<open>page_content\<close>,
  \<open>metadata\<close> and \<open>content_length\<close>.
\<close>

record json_entry =
  entry_page_content :: pystr
  entry_metadata :: "pystr \<rightharpoonup> pystr"
  content_length :: nat

text \<open>The loop that builds \<open>cleaned_docs\<close>.\<close>

fun cleaned_docs_of :: "document list \<Rightarrow> json_entry list" where
  "cleaned_docs_of [] = []"
| "cleaned_docs_of (doc # docs) =
     (let cleaned_content = clean_text (page_content doc)
      in if cleaned_content \<noteq> [] \<and> 50 < length cleaned_content
         then \<lparr>entry_page_content = cleaned_content, entry_metadata = metadata doc,
               content_length = length cleaned_content\<rparr> # cleaned_docs_of docs
         else cleaned_docs_of docs)"

text \<open>
  The file system is outside the program: \<open>makedirs_ok\<close> says whether \<open>os.makedirs\<close>
  succeeds (it is called outside the \<open>try\<close>, so its exception leaves the function) and
  \<open>dump_ok\<close> whether opening the file and \<open>json.dump\<close> succeed.  The result is the array
  written to the file (\<open>None\<close> when writing failed) and the returned count.
\<close>

datatype exn = OSError | ValueError

definition save_docs_to_json ::
  "bool \<Rightarrow> bool \<Rightarrow> document list \<Rightarrow> pystr \<Rightarrow> exn + (json_entry list option \<times> nat)" where
  "save_docs_to_json makedirs_ok dump_ok docs filename =
     (if \<not> makedirs_ok then Inl OSError
      else
        let cleaned_docs = cleaned_docs_of docs
        in if dump_ok then Inr (Some cleaned_docs, length cleaned_docs)
           else Inr (None, 0))"

subsection \<open>sanitize_filename\<close>

text \<open>The class \<open>[\/:*?"<>|]\<close>.\<close>

definition forbidden :: "pychar \<Rightarrow> bool" where
  "forbidden c = (c \<in> set (str ''/:*?<>|'' @ [0x22]))"

definition sanitize_filename :: "pystr \<Rightarrow> pystr" where
  "sanitize_filename url =
     (let sanitized = re_sub_start
            [lit CHR ''h'', lit CHR ''t'', lit CHR ''t'', lit CHR ''p'', opt CHR ''s'',
             lit CHR '':'', lit CHR ''/'', lit CHR ''/''] [] url;
          sanitized = re_sub [(forbidden, 1, Some 1)] (str ''_'') sanitized
      in take 100 sanitized)"

text \<open>
  The claim's reading of "scheme removed": a leading \<open>https://\<close> or \<open>http://\<close> is dropped.
\<close>

definition scheme_stripped_spec :: "pystr \<Rightarrow> pystr" where
  "scheme_stripped_spec url =
     (if prefix (str ''https://'') url then drop 8 url
      else if prefix (str ''http://'') url then drop 7 url
      else url)"

subsection \<open>create_rag_summary\<close>








section \<open>scraper.py\<close>

subsection \<open>check_robots_txt\<close>

text \<open>
  \<open>urllib\<close> is outside the program.  \<open>urlparse\<close> gives the scheme and the network location
  (\<open>None\<close>: it raises, which happens before the \<open>try\<close>); \<open>read\<close> fetches and parses the
  robots file at a URL and gives the parser's state (\<open>None\<close>: it raises); \<open>can_fetch\<close>
  answers for a user agent and a URL (\<open>None\<close>: it raises).  Logging has no effect on
  the results and is left out.
\<close>

record 'p robots_lib =
  urlparse :: "pystr \<Rightarrow> (pystr \<times> pystr) option"
  read :: "pystr \<Rightarrow> 'p option"
  can_fetch :: "'p \<Rightarrow> pystr \<Rightarrow> pystr \<Rightarrow> bool option"

definition robots_url_of :: "pystr \<times> pystr \<Rightarrow> pystr" where
  "robots_url_of parsed_url = fst parsed_url @ str ''://'' @ snd parsed_url @ str ''/robots.txt''"

definition check_robots_txt :: "'p robots_lib \<Rightarrow> pystr \<Rightarrow> exn + bool" where
  "check_robots_txt lib url =
     (case urlparse lib url of
        None \<Rightarrow> Inl ValueError
      | Some parsed_url \<Rightarrow>
          (case read lib (robots_url_of parsed_url) of
             None \<Rightarrow> Inr True
           | Some parser \<Rightarrow>
               (case can_fetch lib parser (str ''*'') url of
                  None \<Rightarrow> Inr True
                | Some is_allowed \<Rightarrow> Inr is_allowed)))"

text \<open>
  \<open>RobotFileParser\<close> of the standard library (\<open>urllib.robotparser\<close>), as far as
  \<open>check_robots_txt\<close> uses it.  \<open>read()\<close> opens the URL: an \<open>HTTPError\<close> is caught
  inside \<open>read()\<close>, which sets \<open>disallow_all\<close> for the status codes 401 and 403 and
  \<open>allow_all\<close> for the other codes from 400 to 499, and returns; any other failure to
  fetch (no connection, no such host, a body that does not decode) leaves \<open>read()\<close> as
  an exception; a body is parsed, which never fails and sets \<open>last_checked\<close>.
  \<open>can_fetch\<close> answers \<open>False\<close> when \<open>disallow_all\<close> is set, \<open>True\<close> when \<open>allow_all\<close>
  is set, \<open>False\<close> when no file has been parsed (\<open>last_checked\<close> is unset), and asks
  the parsed rules otherwise.  Opening the URL, the parser of the rules and their
  matching are parameters.
\<close>

datatype fetched = FetchRaises | HTTPError nat | Body pystr

record 'r robot_file_parser =
  disallow_all :: bool
  allow_all :: bool
  last_checked :: bool
  rules :: "'r option"

definition robotparser_read :: "(pystr \<Rightarrow> fetched) \<Rightarrow> (pystr \<Rightarrow> 'r) \<Rightarrow> pystr \<Rightarrow> 'r robot_file_parser option" where
  "robotparser_read urlopen parse robots_url =
     (case urlopen robots_url of
        FetchRaises \<Rightarrow> None
      | HTTPError code \<Rightarrow>
          Some \<lparr>disallow_all = (code = 401 \<or> code = 403),
                allow_all = (code \<noteq> 401 \<and> code \<noteq> 403 \<and> 400 \<le> code \<and> code < 500),
                last_checked = False,
                rules = None\<rparr>
      | Body raw \<Rightarrow>
          Some \<lparr>disallow_all = False, allow_all = False, last_checked = True,
                rules = Some (parse raw)\<rparr>)"

definition robotparser_can_fetch ::
  "('r \<Rightarrow> pystr \<Rightarrow> pystr \<Rightarrow> bool) \<Rightarrow> 'r robot_file_parser \<Rightarrow> pystr \<Rightarrow> pystr \<Rightarrow> bool option" where
  "robotparser_can_fetch allowed parser useragent url =
     (if disallow_all parser then Some False
      else if allow_all parser then Some True
      else if \<not> last_checked parser then Some False
      else (case rules parser of
              None \<Rightarrow> Some False
            | Some parsed \<Rightarrow> Some (allowed parsed useragent url)))"

definition stdlib_robotparser ::
  "(pystr \<Rightarrow> (pystr \<times> pystr) option) \<Rightarrow> (pystr \<Rightarrow> fetched) \<Rightarrow> (pystr \<Rightarrow> 'r) \<Rightarrow>
   ('r \<Rightarrow> pystr \<Rightarrow> pystr \<Rightarrow> bool) \<Rightarrow> 'r robot_file_parser robots_lib" where
  "stdlib_robotparser parse_url urlopen parse allowed =
     \<lparr>urlparse = parse_url,
      read = robotparser_read urlopen parse,
      can_fetch = robotparser_can_fetch allowed\<rparr>"

subsection \<open>clean_markdown_content\<close>

text \<open>The condition under which a (stripped) line is skipped.\<close>

definition skip_line :: "(pystr \<Rightarrow> pystr) \<Rightarrow> pystr \<Rightarrow> bool" where
  "skip_line lower line =
     (length line < 3 \<or>
      list_ex (\<lambda>p. prefix p (lower line))
        [str ''menu'', str ''nav'', str ''skip to'', str ''home |'', str ''| home''] \<or>
      re_match [(\<lambda>c. isspace c \<or> c = of_char CHR ''|'' \<or> c = of_char CHR ''-'', 1, None)] line \<or>
      5 < count_list line (of_char CHR ''|''))"

text \<open>The loop over the lines.\<close>

fun cleaned_lines_of :: "(pystr \<Rightarrow> pystr) \<Rightarrow> pystr list \<Rightarrow> pystr list" where
  "cleaned_lines_of lower [] = []"
| "cleaned_lines_of lower (line # lines) =
     (let line = strip line
      in if skip_line lower line then cleaned_lines_of lower lines
         else line # cleaned_lines_of lower lines)"

definition clean_markdown_content :: "(pystr \<Rightarrow> pystr) \<Rightarrow> pystr \<Rightarrow> pystr" where
  "clean_markdown_content lower markdown_text =
     (if markdown_text = [] then []
      else
        let markdown_text = re_sub [run_of CHR 0x0A 3] [NL, NL] markdown_text;
            markdown_text = re_sub [run_of CHR ''*'' 3] (str ''**'') markdown_text;
            markdown_text = re_sub [run_of CHR ''_'' 3] (str ''__'') markdown_text;
            lines = split_on NL markdown_text
        in join [NL] (cleaned_lines_of lower lines))"

subsection \<open>scrape_and_process_url\<close>

text \<open>
  The browser, the HTML converter and the two text splitters are libraries.  A loaded
  page answers the queries the function makes: the inner HTML of the elements a selector
  matches (in document order; \<open>count()\<close> is the length), the inner HTML of \<open>body\<close>, the
  title, and the lookup of the description, which has a \<open>try\<close> of its own.
\<close>

datatype description_lookup =
  LookupRaises | NoElement | Attribute "pystr option"

record page =
  inner_html :: "pystr \<Rightarrow> pystr list"
  body_inner_html :: pystr
  title :: pystr
  description :: description_lookup

text \<open>
  What the \<open>with sync_playwright()\<close> block meets: a timeout, another exception, or a
  loaded page.
\<close>

datatype browsing = PlaywrightTimeoutError | BrowserError | Loaded page

text \<open>
  The collaborators of the function.  A library call that raises gives \<open>None\<close>.
  \<open>header_split\<close> is \<open>MarkdownHeaderTextSplitter(headers_to_split_on, strip_headers=False)
  .split_text\<close>, given the pairs \<open>headers_to_split_on\<close>; \<open>recursive_split\<close> is
  \<open>RecursiveCharacterTextSplitter(chunk_size=CHUNK_SIZE, chunk_overlap=CHUNK_OVERLAP,
  separators=...).split_text\<close>.
\<close>

record 'p env =
  robots :: "'p robots_lib"
  goto :: "pystr \<Rightarrow> browsing"
  handle :: "pystr \<Rightarrow> pystr option"
  header_split :: "(pystr \<times> pystr) list \<Rightarrow> pystr \<Rightarrow> document list option"
  recursive_split :: "pystr \<Rightarrow> pystr list option"
  str_lower :: "pystr \<Rightarrow> pystr"
  str_isalnum :: "pychar \<Rightarrow> bool"

definition content_selectors :: "pystr list" where
  "content_selectors =
     [str ''article'', str ''main'', str ''[role='' @ [0x22] @ str ''main'' @ [0x22] @ str '']'',
      str ''#main'', str ''#content'', str ''.main'', str ''.content'', str ''.post'',
      str ''.entry'', str ''.article-content'', str ''.post-content'', str ''.entry-content'',
      str ''.page-content'']"

text \<open>
  The loop over the selectors: the first selector that matches an element stops the loop
  with the inner HTML of its first element; \<open>None\<close> when no selector matches.
\<close>

fun first_selected :: "page \<Rightarrow> pystr list \<Rightarrow> (pystr \<times> pystr) option" where
  "first_selected pg [] = None"
| "first_selected pg (selector # selectors) =
     (case inner_html pg selector of
        [] \<Rightarrow> first_selected pg selectors
      | html # _ \<Rightarrow> Some (html, selector))"

text \<open>\<open>html_content\<close> and \<open>selector_used\<close> after the fallback to the body.\<close>

definition extract_html :: "page \<Rightarrow> pystr \<times> pystr" where
  "extract_html pg =
     (case first_selected pg content_selectors of
        Some (html_content, selector_used) \<Rightarrow>
          if html_content \<noteq> [] then (html_content, selector_used)
          else (body_inner_html pg, str ''body'')
      | None \<Rightarrow> (body_inner_html pg, str ''body''))"

definition page_title_of :: "page \<Rightarrow> pystr" where
  "page_title_of pg = (if title pg \<noteq> [] then title pg else str ''No Title'')"

definition page_description_of :: "page \<Rightarrow> pystr" where
  "page_description_of pg =
     (case description pg of
        LookupRaises \<Rightarrow> []
      | NoElement \<Rightarrow> []
      | Attribute None \<Rightarrow> []
      | Attribute (Some content) \<Rightarrow> content)"

definition headers_to_split_on :: "(pystr \<times> pystr) list" where
  "headers_to_split_on = [(str ''#'', str ''H1''), (str ''##'', str ''H2''), (str ''###'', str ''H3'')]"

definition base_metadata_of :: "pystr \<Rightarrow> pystr \<Rightarrow> pystr \<Rightarrow> pystr \<Rightarrow> pystr \<rightharpoonup> pystr" where
  "base_metadata_of url page_title page_description selector_used =
     [str ''source'' \<mapsto> url,
      str ''title'' \<mapsto> page_title,
      str ''description'' \<mapsto> page_description,
      str ''selector_used'' \<mapsto> selector_used,
      str ''content_type'' \<mapsto> str ''markdown'']"

text \<open>
  The first statements of the loop over the header splits: the base metadata are merged
  into the split's metadata and the header context is added.
\<close>

definition add_header_context :: "(pystr \<rightharpoonup> pystr) \<Rightarrow> document \<Rightarrow> document" where
  "add_header_context base_metadata split =
     (let md = metadata split ++ base_metadata;
          h1 = dict_get md (str ''Header 1'') [];
          header_info = (if h1 \<noteq> [] then h1 else dict_get md (str ''Header 2'') [])
      in split\<lparr>metadata := (if header_info \<noteq> [] then md(str ''section'' \<mapsto> header_info) else md)\<rparr>)"

text \<open>
  \<open>splitter.split_documents([doc])\<close> and \<open>splitter.create_documents([text], [md])\<close>: every
  piece of the text becomes a document with a copy of the metadata.
\<close>

definition create_documents ::
  "(pystr \<Rightarrow> pystr list option) \<Rightarrow> pystr \<Rightarrow> (pystr \<rightharpoonup> pystr) \<Rightarrow> document list option" where
  "create_documents split_text text md =
     map_option (map (\<lambda>chunk. \<lparr>page_content = chunk, metadata = md\<rparr>)) (split_text text)"

text \<open>The loop over the header splits, which builds \<open>final_chunks\<close>.\<close>

fun final_chunks_of ::
  "(pystr \<Rightarrow> pystr list option) \<Rightarrow> (pystr \<rightharpoonup> pystr) \<Rightarrow> document list \<Rightarrow> document list option" where
  "final_chunks_of split_text base_metadata [] = Some []"
| "final_chunks_of split_text base_metadata (split # splits) =
     (let split = add_header_context base_metadata split
      in case create_documents split_text (page_content split) (metadata split) of
           None \<Rightarrow> None
         | Some further_splits \<Rightarrow>
             map_option (\<lambda>rest. further_splits @ rest)
               (final_chunks_of split_text base_metadata splits))"

text \<open>The chunks before the final filter; \<open>None\<close> when a splitter raises.\<close>

definition chunks_of :: "'p env \<Rightarrow> (pystr \<rightharpoonup> pystr) \<Rightarrow> pystr \<Rightarrow> document list option" where
  "chunks_of env base_metadata markdown_content =
     (let md_header_splits =
            (case header_split env headers_to_split_on markdown_content of
               None \<Rightarrow> []
             | Some splits \<Rightarrow> splits)
      in if md_header_splits \<noteq> []
         then final_chunks_of (recursive_split env) base_metadata md_header_splits
         else create_documents (recursive_split env) markdown_content base_metadata)"

text \<open>The final filter; the pattern is \<open>^[\s\W]*$\<close>.\<close>

fun valid_chunks_of :: "(pychar \<Rightarrow> bool) \<Rightarrow> document list \<Rightarrow> document list" where
  "valid_chunks_of isalnum [] = []"
| "valid_chunks_of isalnum (chunk # chunks) =
     (let clean_content = strip (page_content chunk)
      in if 50 < length clean_content \<and>
            \<not> re_match [(\<lambda>c. isspace c \<or> \<not> is_word isalnum c, 0, None)] clean_content
         then chunk\<lparr>page_content := clean_content\<rparr> # valid_chunks_of isalnum chunks
         else valid_chunks_of isalnum chunks)"

text \<open>The test on the cleaned markdown.\<close>

definition insufficient :: "pystr \<Rightarrow> bool" where
  "insufficient markdown_content =
     (strip markdown_content = [] \<or> length (strip markdown_content) < 100)"

text \<open>From the cleaned markdown to the result: chunking and the final filter.\<close>

definition process_markdown :: "'p env \<Rightarrow> (pystr \<rightharpoonup> pystr) \<Rightarrow> pystr \<Rightarrow> document list option" where
  "process_markdown env base_metadata markdown_content =
     (case chunks_of env base_metadata markdown_content of
        None \<Rightarrow> None
      | Some chunks \<Rightarrow>
          (let valid_chunks = valid_chunks_of (str_isalnum env) chunks
           in if valid_chunks = [] then None else Some valid_chunks))"

text \<open>
  The function: \<open>Inl\<close> is an exception that leaves it (only \<open>check_robots_txt\<close> is called
  outside the \<open>try\<close>), \<open>Inr None\<close> is the returned \<open>None\<close>.
\<close>

definition scrape_and_process_url :: "'p env \<Rightarrow> pystr \<Rightarrow> exn + document list option" where
  "scrape_and_process_url env url =
     (case check_robots_txt (robots env) url of
        Inl e \<Rightarrow> Inl e
      | Inr False \<Rightarrow> Inr None
      | Inr True \<Rightarrow>
          Inr (case goto env url of
                 PlaywrightTimeoutError \<Rightarrow> None
               | BrowserError \<Rightarrow> None
               | Loaded pg \<Rightarrow>
                   (let (html_content, selector_used) = extract_html pg;
                        page_title = page_title_of pg;
                        page_description = page_description_of pg
                    in if html_content = [] then None
                       else
                         (case handle env html_content of
                            None \<Rightarrow> None
                          | Some markdown_content \<Rightarrow>
                              (let markdown_content =
                                     clean_markdown_content (str_lower env) markdown_content
                               in if insufficient markdown_content then None
                                  else process_markdown env
                                         (base_metadata_of url page_title page_description
                                            selector_used)
                                         markdown_content)))))"


section \<open>rag.py\<close>

subsection \<open>RAGProcessor\<close>

text \<open>
  The state of a \<open>RAGProcessor\<close> after \<open>__init__\<close>: the embedding model, which maps a text
  to a vector, and the vector store, \<open>None\<close> until one is created or loaded.
\<close>

record ('v, 's) rag_processor =
  embeddings :: "pystr \<Rightarrow> 'v"
  vector_store :: "'s option"

text \<open>
  The calls that the methods make into FAISS and the file system; a call that raises
  gives \<open>None\<close>.  \<open>'s\<close> is the type of a vector store, \<open>'d\<close> the state of the disk.
\<close>

record ('v, 's, 'd) faiss =
  from_documents :: "document list \<Rightarrow> (pystr \<Rightarrow> 'v) \<Rightarrow> 's option"
  makedirs :: "pystr \<Rightarrow> 'd \<Rightarrow> 'd option"
  save_local :: "'s \<Rightarrow> pystr \<Rightarrow> 'd \<Rightarrow> 'd option"
  load_local :: "pystr \<Rightarrow> (pystr \<Rightarrow> 'v) \<Rightarrow> 'd \<Rightarrow> 's option"
  store_search :: "'s \<Rightarrow> pystr \<Rightarrow> nat \<Rightarrow> document list option"

definition VECTOR_STORE_PATH :: pystr where
  "VECTOR_STORE_PATH = str ''data/vector_store''"

text \<open>\<open>path or VECTOR_STORE_PATH\<close>, for the parameter \<open>path=None\<close>.\<close>

definition path_or_default :: "pystr option \<Rightarrow> pystr" where
  "path_or_default path =
     (case path of
        None \<Rightarrow> VECTOR_STORE_PATH
      | Some p \<Rightarrow> if p \<noteq> [] then p else VECTOR_STORE_PATH)"

text \<open>The methods return the new state of the processor (or of the disk) and their result.\<close>

definition create_vector_store ::
  "('v, 's, 'd) faiss \<Rightarrow> ('v, 's) rag_processor \<Rightarrow> document list \<Rightarrow>
   ('v, 's) rag_processor \<times> 's option" where
  "create_vector_store lib self documents =
     (let valid_docs = filter (\<lambda>doc. 30 < length (strip (page_content doc))) documents
      in if valid_docs = [] then (self, None)
         else
           (case from_documents lib valid_docs (embeddings self) of
              None \<Rightarrow> (self, None)
            | Some store \<Rightarrow> (self\<lparr>vector_store := Some store\<rparr>, Some store)))"

definition save_vector_store ::
  "('v, 's, 'd) faiss \<Rightarrow> ('v, 's) rag_processor \<Rightarrow> pystr option \<Rightarrow> 'd \<Rightarrow> 'd \<times> bool" where
  "save_vector_store lib self path disk =
     (case vector_store self of
        None \<Rightarrow> (disk, False)
      | Some store \<Rightarrow>
          (let save_path = path_or_default path
           in case makedirs lib save_path disk of
                None \<Rightarrow> (disk, False)
              | Some disk1 \<Rightarrow>
                  (case save_local lib store save_path disk1 of
                     None \<Rightarrow> (disk1, False)
                   | Some disk2 \<Rightarrow> (disk2, True))))"

definition load_vector_store ::
  "('v, 's, 'd) faiss \<Rightarrow> ('v, 's) rag_processor \<Rightarrow> pystr option \<Rightarrow> 'd \<Rightarrow>
   ('v, 's) rag_processor \<times> 's option" where
  "load_vector_store lib self path disk =
     (let load_path = path_or_default path
      in case load_local lib load_path (embeddings self) disk of
           None \<Rightarrow> (self, None)
         | Some store \<Rightarrow> (self\<lparr>vector_store := Some store\<rparr>, Some store))"

definition similarity_search ::
  "('v, 's, 'd) faiss \<Rightarrow> ('v, 's) rag_processor \<Rightarrow> pystr \<Rightarrow> nat \<Rightarrow> document list" where
  "similarity_search lib self query k =
     (case vector_store self of
        None \<Rightarrow> []
      | Some store \<Rightarrow>
          (case store_search lib store query k of
             None \<Rightarrow> []
           | Some results \<Rightarrow> results))"

subsection \<open>The vector store of the specification\<close>

text \<open>
  Modelled from the spec: the FAISS vector store and its persistence, which are a library
  and not part of the repository.  By sections 3 and 4.5 of the specification, a vector
  store is an index from embedding vectors to chunks, built in one bulk operation from
  the embedded chunks; persisting it writes the index and its documents to a directory
  and overwrites what was there; loading reads back what was persisted at that path and
  takes the embedding model from the caller; a query embeds the text with the store's
  model and returns the \<open>k\<close> nearest documents, the most similar first.  Similarity is a
  parameter: a distance into any linear order, the smaller the more similar.
\<close>

record 'v store =
  index :: "('v \<times> document) list"
  embedding_function :: "pystr \<Rightarrow> 'v"

text \<open>
  Modelled from the spec: the disk, with the directories that exist, the index persisted
  in each, and the paths at which a directory can be made.
\<close>

record 'v disk =
  directories :: "pystr set"
  persisted :: "pystr \<rightharpoonup> ('v \<times> document) list"
  writable :: "pystr \<Rightarrow> bool"

text \<open>Modelled from the spec: the \<open>k\<close> nearest documents of a store, the most similar first.\<close>

definition nearest :: "('v \<Rightarrow> 'v \<Rightarrow> 'o::linorder) \<Rightarrow> 'v store \<Rightarrow> pystr \<Rightarrow> nat \<Rightarrow> document list" where
  "nearest distance store query k =
     map snd (take k (sort_key (\<lambda>entry. distance (embedding_function store query) (fst entry))
       (index store)))"

text \<open>Modelled from the spec: the operations of FAISS and of the file system.\<close>

definition spec_faiss :: "('v \<Rightarrow> 'v \<Rightarrow> 'o::linorder) \<Rightarrow> ('v, 'v store, 'v disk) faiss" where
  "spec_faiss distance =
     \<lparr>from_documents = (\<lambda>docs embed.
        Some \<lparr>index = map (\<lambda>doc. (embed (page_content doc), doc)) docs,
              embedding_function = embed\<rparr>),
      makedirs = (\<lambda>path d.
        if path \<in> directories d then Some d
        else if writable d path then Some (d\<lparr>directories := insert path (directories d)\<rparr>)
        else None),
      save_local = (\<lambda>store path d.
        if path \<in> directories d
        then Some (d\<lparr>persisted := (persisted d)(path \<mapsto> index store)\<rparr>)
        else None),
      load_local = (\<lambda>path embed d.
        case persisted d path of
          None \<Rightarrow> None
        | Some saved \<Rightarrow> Some \<lparr>index = saved, embedding_function = embed\<rparr>),
      store_search = (\<lambda>store query k. Some (nearest distance store query k))\<rparr>"


section \<open>Concrete collaborators\<close>

text \<open>Inputs at which the functions are evaluated below.\<close>

definition example_markdown :: pystr where
  "example_markdown =
     str ''Title'' @ [NL, NL, NL] @ str ''ab'' @ [NL] @ str ''  some ***text ''"

definition long_doc :: document where
  "long_doc =
     \<lparr>page_content =
        str ''  Web scraping is the   automated extraction of data from web sites.....  '',
      metadata = [str ''source'' \<mapsto> str ''https://example.com/a'']\<rparr>"

definition short_doc :: document where
  "short_doc = \<lparr>page_content = str ''too short'', metadata = Map.empty\<rparr>"

definition allowing_robots :: "unit robots_lib" where
  "allowing_robots =
     \<lparr>urlparse = (\<lambda>url. Some (str ''https'', str ''example.com'')),
      read = (\<lambda>robots_url. Some ()),
      can_fetch = (\<lambda>parser agent url. Some True)\<rparr>"

text \<open>A text of exactly 100 characters.\<close>

definition example_text :: pystr where
  "example_text =
     str ''Web scraping is the automated extraction of data from web sites by a program that reads their pages.''"

definition example_page :: page where
  "example_page =
     \<lparr>inner_html = (\<lambda>selector. if selector = str ''article'' then [str ''<p>...</p>''] else []),
      body_inner_html = str ''<article><p>...</p></article>'',
      title = str ''Example'',
      description = NoElement\<rparr>"

text \<open>
  A page whose article converts to \<open>example_text\<close>, without headers: the header splitter
  returns no split, and the size-bounded splitter returns a text of at most 1000
  characters as one piece.
\<close>

definition example_env :: "unit env" where
  "example_env =
     \<lparr>robots = allowing_robots,
      goto = (\<lambda>url. Loaded example_page),
      handle = (\<lambda>html. Some example_text),
      header_split = (\<lambda>headers text. Some []),
      recursive_split = (\<lambda>text. Some [text]),
      str_lower = ascii_lower,
      str_isalnum = ascii_isalnum\<rparr>"

definition example_url :: pystr where
  "example_url = str ''https://example.com/a''"

definition example_metadata :: "pystr \<rightharpoonup> pystr" where
  "example_metadata =
     base_metadata_of example_url (str ''Example'') [] (str ''article'')"

text \<open>The same page with a text that is too short, and with a splitter whose pieces are all dropped.\<close>

definition short_env :: "unit env" where
  "short_env = example_env\<lparr>handle := (\<lambda>html. Some (str ''Too short.''))\<rparr>"

definition dropping_env :: "unit env" where
  "dropping_env = example_env\<lparr>recursive_split := (\<lambda>text. Some [str ''--- ... ---''])\<rparr>"

text \<open>
  The same page under a first-level header.  The header splitter returns one split,
  which keeps the header line and carries the header text under the label that
  \<open>headers_to_split_on\<close> gives to \<open>#\<close>.
\<close>

definition header_markdown :: pystr where
  "header_markdown = str ''# Intro'' @ [NL, NL] @ example_text"

definition header_text :: pystr where
  "header_text = str ''# Intro'' @ [NL] @ example_text"

definition header_env :: "unit env" where
  "header_env =
     example_env
       \<lparr>handle := (\<lambda>html. Some header_markdown),
        header_split := (\<lambda>headers text.
          case headers of
            [] \<Rightarrow> Some []
          | (mark, label) # _ \<Rightarrow>
              Some [\<lparr>page_content = text, metadata = [label \<mapsto> str ''Intro'']\<rparr>])\<rparr>"

definition header_metadata :: "pystr \<rightharpoonup> pystr" where
  "header_metadata = [str ''H1'' \<mapsto> str ''Intro''] ++ example_metadata"

text \<open>A host that answers the request for its robots file with the status 500, and one with 403.\<close>

definition server_error_robots :: "unit robot_file_parser robots_lib" where
  "server_error_robots =
     stdlib_robotparser (\<lambda>url. Some (str ''https'', str ''example.com''))
       (\<lambda>robots_url. HTTPError 500) (\<lambda>raw. ()) (\<lambda>parsed useragent url. True)"

definition forbidden_robots :: "unit robot_file_parser robots_lib" where
  "forbidden_robots =
     stdlib_robotparser (\<lambda>url. Some (str ''https'', str ''example.com''))
       (\<lambda>robots_url. HTTPError 403) (\<lambda>raw. ()) (\<lambda>parsed useragent url. True)"

text \<open>
  A processor whose embedding of a text is its length, with the difference of two
  lengths as their distance, two chunks, and an empty disk.
\<close>

definition length_distance :: "nat \<Rightarrow> nat \<Rightarrow> nat" where
  "length_distance a b = (if a \<le> b then b - a else a - b)"

definition example_processor :: "(nat, nat store) rag_processor" where
  "example_processor = \<lparr>embeddings = length, vector_store = None\<rparr>"

definition scraping_chunk :: document where
  "scraping_chunk =
     \<lparr>page_content = str ''Web scraping is the automated extraction of data.'',
      metadata = [str ''source'' \<mapsto> str ''https://example.com/a'']\<rparr>"

definition model_chunk :: document where
  "model_chunk =
     \<lparr>page_content = str ''A large language model predicts the next token of a text from all the tokens before it.'',
      metadata = [str ''source'' \<mapsto> str ''https://example.com/b'']\<rparr>"

definition empty_disk :: "nat disk" where
  "empty_disk = \<lparr>directories = {}, persisted = Map.empty, writable = (\<lambda>path. True)\<rparr>"


definition example_store :: "nat store" where
  "example_store =
     \<lparr>index = [(length (page_content model_chunk), model_chunk),
               (length (page_content scraping_chunk), scraping_chunk)],
      embedding_function = length\<rparr>"

definition built_processor :: "(nat, nat store) rag_processor" where
  "built_processor = example_processor\<lparr>vector_store := Some example_store\<rparr>"

definition saved_disk :: "nat disk" where
  "saved_disk =
     \<lparr>directories = {VECTOR_STORE_PATH},
      persisted = [VECTOR_STORE_PATH \<mapsto> index example_store],
      writable = (\<lambda>path. True)\<rparr>"


section \<open>Properties of check_robots_txt\<close>

text \<open>When reading the robots file raises, the URL is allowed.\<close>

lemma check_robots_txt_read_raises:
  assumes "urlparse lib url = Some parsed_url" "read lib (robots_url_of parsed_url) = None"
  shows "check_robots_txt lib url = Inr True"
  using assms by (simp add: check_robots_txt_def)

text \<open>
  With the parser of the standard library, a fetch that fails with an HTTP status is not
  an exception of \<open>read()\<close>: outside the codes 400 to 499, and for 401 and 403, no
  file is parsed and the URL is refused.
\<close>

lemma check_robots_txt_http_status:
  assumes "parse_url url = Some parsed_url"
    and "urlopen (robots_url_of parsed_url) = HTTPError code"
    and "code = 401 \<or> code = 403 \<or> code < 400 \<or> 500 \<le> code"
  shows "check_robots_txt (stdlib_robotparser parse_url urlopen parse allowed) url = Inr False"
  using assms
  by (auto simp: check_robots_txt_def stdlib_robotparser_def robotparser_read_def
      robotparser_can_fetch_def)

text \<open>
  Claim C5 at a host that answers the request for \<open>robots.txt\<close> with the status 500:
  fetching the file failed and no policy was parsed, but \<open>read()\<close> returns, \<open>can_fetch\<close>
  answers \<open>False\<close> and \<open>check_robots_txt\<close> returns \<open>False\<close>, where the claim says
  \<open>True\<close>.  The same happens for the status 403.
\<close>

theorem check_robots_txt_http_error:
  "read server_error_robots (str ''https://example.com/robots.txt'') =
     Some \<lparr>disallow_all = False, allow_all = False, last_checked = False, rules = None\<rparr> \<and>
   check_robots_txt server_error_robots (str ''https://example.com/a'') = Inr False \<and>
   check_robots_txt forbidden_robots (str ''https://example.com/a'') = Inr False"
  by (simp add: server_error_robots_def forbidden_robots_def check_robots_txt_def
      stdlib_robotparser_def robotparser_read_def robotparser_can_fetch_def robots_url_of_def)


section \<open>Properties of the patterns\<close>

lemma match_here_lit:
  "match_here (lit c # its) d s =
     (case s of [] \<Rightarrow> None
      | x # xs \<Rightarrow> if x = of_char c then map_option Suc (match_here its d xs) else None)"
  by (cases s) (auto simp: lit_def split: option.splits)

lemma match_here_opt:
  "match_here (opt c # its) d s =
     (case s of [] \<Rightarrow> match_here its d []
      | x # xs \<Rightarrow>
          if x = of_char c
          then (case match_here its d xs of Some m \<Rightarrow> Some (Suc m) | None \<Rightarrow> match_here its d s)
          else match_here its d s)"
  by (cases s) (auto simp: opt_def option.map_ident split: option.splits)

lemma match_here_Nil: "match_here [] False s = Some 0"
  by simp

text \<open>The pattern \<open>^https?:\/\/\<close> matches exactly the two schemes.\<close>

lemma match_scheme:
  "match_here [lit CHR ''h'', lit CHR ''t'', lit CHR ''t'', lit CHR ''p'', opt CHR ''s'',
             lit CHR '':'', lit CHR ''/'', lit CHR ''/''] False url =
     (if prefix (str ''https://'') url then Some 8
      else if prefix (str ''http://'') url then Some 7 else None)"
  by (simp only: match_here_lit match_here_opt match_here_Nil)
     (auto split: list.splits)

text \<open>Substituting one character for a class is a \<open>map\<close>.\<close>

lemma re_sub_class1:
  "re_sub [(P, 1, Some 1)] [r] s = map (\<lambda>c. if P c then r else c) s"
proof (induction s)
  case Nil
  then show ?case by simp
next
  case (Cons x xs)
  then show ?case by (cases "P x") simp_all
qed

lemma re_sub_class1':
  "re_sub [(P, Suc 0, Some (Suc 0))] [r] s = map (\<lambda>c. if P c then r else c) s"
  using re_sub_class1 [of P r s] by simp


section \<open>Properties of sanitize_filename\<close>

lemma sanitize_filename_eq:
  "sanitize_filename url =
     take 100 (map (\<lambda>c. if forbidden c then of_char CHR ''_'' else c) (scheme_stripped_spec url))"
  by (simp add: sanitize_filename_def re_sub_start_def match_scheme re_sub_class1'
      scheme_stripped_spec_def cong: if_cong)

text \<open>
  Claim C9.  \<open>sanitize_filename("https://example.com/a:b?c")\<close> is \<open>"example.com_a_b_c"\<close>;
  and for every URL the result is the URL without its leading \<open>http://\<close> or \<open>https://\<close>,
  with every character of \<open>/ : * ? " < > |\<close> replaced by an underscore, cut to 100
  characters: it contains none of these characters, does not start with a scheme, and has
  at most 100 characters.
\<close>

theorem sanitize_filename_spec:
  "sanitize_filename (str ''https://example.com/a:b?c'') = str ''example.com_a_b_c'' \<and>
   sanitize_filename url =
     take 100 (map (\<lambda>c. if forbidden c then of_char CHR ''_'' else c) (scheme_stripped_spec url)) \<and>
   (\<forall>c \<in> set (str ''/:*?<>|'' @ [0x22]). c \<notin> set (sanitize_filename url)) \<and>
   \<not> prefix (str ''http://'') (sanitize_filename url) \<and>
   \<not> prefix (str ''https://'') (sanitize_filename url) \<and>
   length (sanitize_filename url) \<le> 100"
proof -
  have ex: "sanitize_filename (str ''https://example.com/a:b?c'') = str ''example.com_a_b_c''"
    by code_simp
  have bad: "c \<notin> set (sanitize_filename url)" if "forbidden c" for c
  proof
    assume "c \<in> set (sanitize_filename url)"
    then have "c \<in> set (map (\<lambda>c. if forbidden c then of_char CHR ''_'' else c)
        (scheme_stripped_spec url))"
      unfolding sanitize_filename_eq by (rule in_set_takeD)
    then have "c \<in> (\<lambda>c. if forbidden c then of_char CHR ''_'' else c) `
        set (scheme_stripped_spec url)"
      by (simp only: set_map)
    then obtain d where d: "c = (if forbidden d then of_char CHR ''_'' else d)"
      by (rule imageE)
    have "\<not> forbidden (if forbidden d then of_char CHR ''_'' else d)"
      by (simp add: forbidden_def)
    with d that show False by simp
  qed
  have colon: "forbidden (of_char CHR '':'')"
    by (simp add: forbidden_def)
  have p1: "\<not> prefix (str ''http://'') (sanitize_filename url)"
  proof
    assume "prefix (str ''http://'') (sanitize_filename url)"
    then have "set (str ''http://'') \<subseteq> set (sanitize_filename url)"
      by (rule set_mono_prefix)
    then have "of_char CHR '':'' \<in> set (sanitize_filename url)" by simp
    with bad [OF colon] show False by simp
  qed
  have p2: "\<not> prefix (str ''https://'') (sanitize_filename url)"
  proof
    assume "prefix (str ''https://'') (sanitize_filename url)"
    then have "set (str ''https://'') \<subseteq> set (sanitize_filename url)"
      by (rule set_mono_prefix)
    then have "of_char CHR '':'' \<in> set (sanitize_filename url)" by simp
    with bad [OF colon] show False by simp
  qed
  have len: "length (sanitize_filename url) \<le> 100"
    by (simp add: sanitize_filename_eq)
  from bad have "\<forall>c \<in> set (str ''/:*?<>|'' @ [0x22]). c \<notin> set (sanitize_filename url)"
    unfolding forbidden_def by blast
  with ex sanitize_filename_eq p1 p2 len show ?thesis by blast
qed

theorem sanitize_filename_spec_witness:
  "sanitize_filename (str ''http://a.org/x|y'') = str ''a.org_x_y'' \<and>
   of_char CHR ''/'' \<notin> set (sanitize_filename (str ''http://a.org/x|y'')) \<and>
   length (sanitize_filename (str ''http://a.org/x|y'')) \<le> 100"
proof -
  have "sanitize_filename (str ''http://a.org/x|y'') = str ''a.org_x_y''"
    by code_simp
  moreover have "of_char CHR ''/'' \<in> set (str ''/:*?<>|'' @ [0x22])" by simp
  ultimately show ?thesis
    using sanitize_filename_spec [of "str ''http://a.org/x|y''"] by blast
qed

section \<open>Substituting runs of one character\<close>

lemma match_here_run:
  "match_here [(P, k, None)] False s =
     (if k \<le> length (takeWhile P s) then Some (length (takeWhile P s)) else None)"
  by simp

lemma re_sub_run_Cons:
  assumes "0 < k"
  shows "re_sub [(P, k, None)] rep (x # xs) =
     (if k \<le> length (takeWhile P (x # xs)) then rep @ re_sub [(P, k, None)] rep (dropWhile P xs)
      else x # re_sub [(P, k, None)] rep xs)"
proof (cases "k \<le> length (takeWhile P (x # xs))")
  case True
  with assms have px: "P x" by (auto split: if_splits)
  then have len: "length (takeWhile P (x # xs)) = Suc (length (takeWhile P xs))" by simp
  have "re_sub [(P, k, None)] rep (x # xs) =
      rep @ re_sub [(P, k, None)] rep (drop (length (takeWhile P xs)) xs)"
    using True unfolding re_sub.simps match_here_run len by simp
  with True show ?thesis by (simp add: dropWhile_eq_drop)
next
  case False
  then show ?thesis unfolding re_sub.simps match_here_run by simp
qed

lemma takeWhile_dropWhile_Nil: "takeWhile P (dropWhile P xs) = []"
  by (induction xs) auto

lemma prefix2_leading:
  "prefix [c, c] t \<longleftrightarrow> 2 \<le> length (takeWhile (\<lambda>x. x = c) t)"
proof (cases t)
  case Nil
  then show ?thesis by simp
next
  case (Cons a r)
  then show ?thesis by (cases r) auto
qed

lemma sublist3_Cons:
  "sublist [c, c, c] (x # t) \<longleftrightarrow>
     (x = c \<and> 2 \<le> length (takeWhile (\<lambda>x. x = c) t)) \<or> sublist [c, c, c] t"
  by (auto simp: sublist_Cons_right prefix2_leading [symmetric])

lemma run3_leading:
  "length (takeWhile (\<lambda>x. x = c) (re_sub [(\<lambda>x. x = c, 3, None)] [c, c] s)) =
     min 2 (length (takeWhile (\<lambda>x. x = c) s))"
proof (induction "length s" arbitrary: s rule: less_induct)
  case less
  show ?case
  proof (cases s)
    case Nil
    then show ?thesis by simp
  next
    case (Cons x xs)
    show ?thesis
    proof (cases "3 \<le> length (takeWhile (\<lambda>x. x = c) (x # xs))")
      case True
      have "length (dropWhile (\<lambda>x. x = c) xs) < length s"
        using Cons length_dropWhile_le [of "\<lambda>x. x = c" xs] by simp
      from less [OF this]
      have "length (takeWhile (\<lambda>x. x = c)
          (re_sub [(\<lambda>x. x = c, 3, None)] [c, c] (dropWhile (\<lambda>x. x = c) xs))) = 0"
        by (simp add: takeWhile_dropWhile_Nil)
      with True Cons show ?thesis
        by (simp add: re_sub_run_Cons del: re_sub.simps)
    next
      case False
      have "length xs < length s" using Cons by simp
      from less [OF this] False Cons show ?thesis
        by (auto simp: re_sub_run_Cons simp del: re_sub.simps split: if_splits)
    qed
  qed
qed

lemma run3_collapsed:
  "\<not> sublist [c, c, c] (re_sub [(\<lambda>x. x = c, 3, None)] [c, c] s)"
proof (induction "length s" arbitrary: s rule: less_induct)
  case less
  show ?case
  proof (cases s)
    case Nil
    then show ?thesis by simp
  next
    case (Cons x xs)
    show ?thesis
    proof (cases "3 \<le> length (takeWhile (\<lambda>x. x = c) (x # xs))")
      case True
      let ?r = "re_sub [(\<lambda>x. x = c, 3, None)] [c, c] (dropWhile (\<lambda>x. x = c) xs)"
      have lt: "length (dropWhile (\<lambda>x. x = c) xs) < length s"
        using Cons length_dropWhile_le [of "\<lambda>x. x = c" xs] by simp
      have z: "length (takeWhile (\<lambda>x. x = c) ?r) = 0"
        unfolding run3_leading by (simp add: takeWhile_dropWhile_Nil)
      have "\<not> sublist [c, c, c] (c # c # ?r)"
        using less [OF lt] z by (simp add: sublist3_Cons)
      with True Cons show ?thesis
        by (simp add: re_sub_run_Cons del: re_sub.simps)
    next
      case False
      have lt: "length xs < length s" using Cons by simp
      have "length (takeWhile (\<lambda>x. x = c) (re_sub [(\<lambda>x. x = c, 3, None)] [c, c] xs)) < 2
          \<or> x \<noteq> c"
        unfolding run3_leading using False by (auto split: if_splits)
      with less [OF lt] False Cons show ?thesis
        by (auto simp: re_sub_run_Cons sublist3_Cons simp del: re_sub.simps)
    qed
  qed
qed

lemma sublist_skip_other:
  "d \<notin> set rep \<Longrightarrow> sublist [d, d, d] (rep @ t) \<Longrightarrow> sublist [d, d, d] t"
  by (induction rep) (auto simp: sublist_Cons_right)

lemma sublist_trans: "sublist xs ys \<Longrightarrow> sublist ys zs \<Longrightarrow> sublist xs zs"
  by (rule sublist_order.order.trans)

lemma other_leading:
  assumes "0 < k" "\<not> P d" "d \<notin> set rep" "rep \<noteq> []"
  shows "length (takeWhile (\<lambda>x. x = d) (re_sub [(P, k, None)] rep s)) \<le>
     length (takeWhile (\<lambda>x. x = d) s)"
proof (induction "length s" arbitrary: s rule: less_induct)
  case less
  show ?case
  proof (cases s)
    case Nil
    then show ?thesis by simp
  next
    case (Cons x xs)
    show ?thesis
    proof (cases "k \<le> length (takeWhile P (x # xs))")
      case True
      from assms(3,4) have "takeWhile (\<lambda>x. x = d) (rep @ t) = []" for t
        by (cases rep) auto
      with True Cons assms(1) show ?thesis
        by (simp add: re_sub_run_Cons del: re_sub.simps)
    next
      case False
      have "length xs < length s" using Cons by simp
      from less [OF this] False Cons assms(1) show ?thesis
        by (simp add: re_sub_run_Cons del: re_sub.simps)
    qed
  qed
qed

lemma other_run3:
  assumes "0 < k" "\<not> P d" "d \<notin> set rep" "rep \<noteq> []"
  shows "sublist [d, d, d] (re_sub [(P, k, None)] rep s) \<Longrightarrow> sublist [d, d, d] s"
proof (induction "length s" arbitrary: s rule: less_induct)
  case less
  show ?case
  proof (cases s)
    case Nil
    with less.prems show ?thesis by simp
  next
    case (Cons x xs)
    show ?thesis
    proof (cases "k \<le> length (takeWhile P (x # xs))")
      case True
      have lt: "length (dropWhile P xs) < length s"
        using Cons length_dropWhile_le [of P xs] by simp
      from True Cons assms(1) less.prems
      have "sublist [d, d, d] (rep @ re_sub [(P, k, None)] rep (dropWhile P xs))"
        by (simp add: re_sub_run_Cons del: re_sub.simps)
      then have "sublist [d, d, d] (re_sub [(P, k, None)] rep (dropWhile P xs))"
        by (rule sublist_skip_other [OF assms(3)])
      then have "sublist [d, d, d] (dropWhile P xs)"
        by (rule less.hyps [OF lt])
      moreover have "sublist (dropWhile P xs) (x # xs)"
        by (meson sublist_Cons_right sublist_dropWhile)
      ultimately show ?thesis
        unfolding Cons by (rule sublist_trans)
    next
      case False
      have lt: "length xs < length s" using Cons by simp
      from False Cons assms(1) less.prems
      have "sublist [d, d, d] (x # re_sub [(P, k, None)] rep xs)"
        by (simp add: re_sub_run_Cons del: re_sub.simps)
      then consider
          "x = d" "2 \<le> length (takeWhile (\<lambda>x. x = d) (re_sub [(P, k, None)] rep xs))"
        | "sublist [d, d, d] (re_sub [(P, k, None)] rep xs)"
        unfolding sublist3_Cons by blast
      then show ?thesis
      proof cases
        case 1
        with other_leading [of k P d rep xs] assms show ?thesis
          unfolding Cons sublist3_Cons by simp
      next
        case 2
        then have "sublist [d, d, d] xs" by (rule less.hyps [OF lt])
        then show ?thesis unfolding Cons sublist3_Cons by simp
      qed
    qed
  qed
qed

section \<open>Splitting, joining and stripping\<close>

lemma split_on_not_Nil: "split_on c s \<noteq> []"
  by (induction s) (auto split: list.splits)

lemma join_Cons: "ls \<noteq> [] \<Longrightarrow> join sep (l # ls) = l @ sep @ join sep ls"
  by (cases ls) simp_all

lemma join_split_on: "join [c] (split_on c s) = s"
proof (induction s)
  case Nil
  then show ?case by simp
next
  case (Cons x xs)
  obtain h t where sp: "split_on c xs = h # t"
    using split_on_not_Nil [of c xs] by (cases "split_on c xs") auto
  show ?case
  proof (cases "x = c")
    case True
    with Cons show ?thesis by (simp add: join_Cons split_on_not_Nil)
  next
    case False
    with Cons sp show ?thesis by (cases t) simp_all
  qed
qed

lemma split_on_no_sep: "l \<in> set (split_on c s) \<Longrightarrow> c \<notin> set l"
proof (induction s arbitrary: l)
  case Nil
  then show ?case by simp
next
  case (Cons x xs)
  obtain h t where sp: "split_on c xs = h # t"
    using split_on_not_Nil [of c xs] by (cases "split_on c xs") auto
  with Cons show ?case by (auto split: if_splits)
qed

lemma sublist_sep:
  assumes "sublist xs (a @ n # b)" "n \<notin> set xs"
  shows "sublist xs a \<or> sublist xs b"
proof -
  from assms(1) consider "sublist xs a" | "sublist xs (n # b)"
    | xs1 xs2 where "xs = xs1 @ xs2" "suffix xs1 a" "prefix xs2 (n # b)"
    unfolding sublist_append by blast
  then show ?thesis
  proof cases
    case 1
    then show ?thesis by simp
  next
    case 2
    then have "prefix xs (n # b) \<or> sublist xs b" by (simp add: sublist_Cons_right)
    moreover have "xs = []" if "prefix xs (n # b)"
      using that assms(2) by (cases xs) auto
    ultimately show ?thesis by auto
  next
    case 3
    from 3(1,3) assms(2) have "xs2 = []" by (cases xs2) auto
    with 3(1,2) show ?thesis by auto
  qed
qed

lemma sublist_join:
  assumes "n \<notin> set xs" "xs \<noteq> []"
  shows "sublist xs (join [n] ls) \<Longrightarrow> \<exists>l \<in> set ls. sublist xs l"
proof (induction ls)
  case Nil
  with assms(2) show ?case by simp
next
  case (Cons l ls)
  show ?case
  proof (cases "ls = []")
    case True
    with Cons.prems show ?thesis by simp
  next
    case False
    with Cons.prems have "sublist xs (l @ n # join [n] ls)"
      by (simp add: join_Cons)
    from sublist_sep [OF this assms(1)] Cons.IH show ?thesis by auto
  qed
qed

lemma sublist_in_join:
  "y \<in> set ls \<Longrightarrow> sublist y (join sep ls)"
proof (induction sep ls rule: join.induct)
  case (1 sep)
  then show ?case by simp
next
  case (2 sep l)
  then show ?case by simp
next
  case (3 sep l l' ls)
  show ?case
  proof (cases "y = l")
    case True
    then show ?thesis by simp
  next
    case False
    with 3 have "sublist y (join sep (l' # ls))" by simp
    then have "sublist y ((l @ sep) @ join sep (l' # ls))"
      unfolding sublist_append by blast
    then show ?thesis by simp
  qed
qed

lemma split_on_sublist: "l \<in> set (split_on c s) \<Longrightarrow> sublist l s"
  using sublist_in_join [of l "split_on c s" "[c]"] by (simp add: join_split_on)

lemma sublist_strip: "sublist (strip l) l"
proof -
  have "sublist (rev (dropWhile isspace (rev (dropWhile isspace l)))) (rev (rev (dropWhile isspace l)))"
    unfolding sublist_rev by (rule sublist_dropWhile)
  then have "sublist (strip l) (dropWhile isspace l)"
    by (simp add: strip_def)
  then show ?thesis
    using sublist_dropWhile by (rule sublist_trans)
qed

lemma prefix_rev_dropWhile: "prefix (rev (dropWhile P (rev t))) t"
proof -
  have "suffix (dropWhile P (rev t)) (rev t)" by (rule suffix_dropWhile)
  then show ?thesis by (simp add: suffix_to_prefix)
qed

lemma dropWhile_strip: "dropWhile isspace (strip s) = strip s"
proof (cases "strip s = []")
  case True
  then show ?thesis by simp
next
  case False
  let ?t = "dropWhile isspace s"
  have "prefix (strip s) ?t"
    unfolding strip_def by (rule prefix_rev_dropWhile)
  then obtain zs where t: "?t = strip s @ zs" by (auto simp: prefix_def)
  with False have "?t \<noteq> []" by auto
  then have "\<not> isspace (hd ?t)" by (rule hd_dropWhile)
  with t False have "\<not> isspace (hd (strip s))" by (metis hd_append2)
  then show ?thesis by (simp add: dropWhile_eq_self_iff)
qed

lemma strip_idem: "strip (strip s) = strip s"
proof -
  have "strip (strip s) = rev (dropWhile isspace (rev (strip s)))"
    unfolding strip_def [of "strip s"] dropWhile_strip ..
  also have "\<dots> = strip s"
    by (simp add: strip_def)
  finally show ?thesis .
qed

lemma cleaned_lines_of_eq:
  "cleaned_lines_of lower ls = filter (\<lambda>l. \<not> skip_line lower l) (map strip ls)"
  by (induction ls) (simp_all add: Let_def)

lemma cleaned_line:
  assumes "l \<in> set (cleaned_lines_of lower ls)"
  shows "3 \<le> length l" "strip l = l" "\<exists>l0 \<in> set ls. l = strip l0"
proof -
  from assms obtain l0 where l0: "l0 \<in> set ls" "l = strip l0" "\<not> skip_line lower l"
    unfolding cleaned_lines_of_eq by auto
  from l0(3) show "3 \<le> length l" by (simp add: skip_line_def)
  from l0(2) show "strip l = l" by (simp add: strip_idem)
  from l0 show "\<exists>l0 \<in> set ls. l = strip l0" by blast
qed

lemma hd_join: "ls \<noteq> [] \<Longrightarrow> hd ls \<noteq> [] \<Longrightarrow> hd (join sep ls) = hd (hd ls)"
  by (induction sep ls rule: join.induct) simp_all

lemma join_Nil_iff: "\<forall>l \<in> set ls. l \<noteq> [] \<Longrightarrow> join sep ls = [] \<longleftrightarrow> ls = []"
  by (induction sep ls rule: join.induct) simp_all

lemma no_blank_line_join:
  assumes "\<forall>l \<in> set ls. l \<noteq> [] \<and> n \<notin> set l"
  shows "\<not> sublist [n, n] (join [n] ls)"
  using assms
proof (induction ls)
  case Nil
  then show ?case by simp
next
  case (Cons l ls)
  show ?case
  proof (cases "ls = []")
    case True
    with Cons.prems show ?thesis
      using set_mono_sublist [of "[n, n]" l] by auto
  next
    case False
    let ?r = "join [n] ls"
    from Cons have ih: "\<not> sublist [n, n] ?r" by simp
    from False Cons.prems have "hd ls \<noteq> []" "n \<notin> set (hd ls)" by (cases ls; simp)+
    with False have hd: "?r \<noteq> []" "hd ?r \<noteq> n"
      using hd_join [of ls "[n]"] join_Nil_iff [of ls "[n]"] Cons.prems
      by (auto, metis hd_in_set)
    from Cons.prems have nl: "n \<notin> set l" by simp
    have "\<not> sublist [n, n] (l @ n # ?r)"
    proof
      assume "sublist [n, n] (l @ n # ?r)"
      then consider "sublist [n, n] l" | "sublist [n, n] (n # ?r)"
        | xs1 xs2 where "[n, n] = xs1 @ xs2" "suffix xs1 l" "prefix xs2 (n # ?r)"
        unfolding sublist_append by blast
      then show False
      proof cases
        case 1
        with nl show False using set_mono_sublist [of "[n, n]" l] by auto
      next
        case 2
        with ih hd show False
          by (cases ?r) (auto simp: sublist_Cons_right)
      next
        case 3
        show False
        proof (cases xs1)
          case Nil
          with 3 ih hd show False by (cases ?r) auto
        next
          case (Cons a as)
          with 3(1) have "a = n" by simp
          with Cons 3(2) nl show False
            using set_mono_suffix [of xs1 l] by auto
        qed
      qed
    qed
    with False show ?thesis by (simp add: join_Cons)
  qed
qed

lemma split_on_single: "n \<notin> set l \<Longrightarrow> split_on n l = [l]"
  by (induction l) auto

lemma split_on_append: "n \<notin> set l \<Longrightarrow> split_on n (l @ n # r) = l # split_on n r"
  by (induction l) auto

lemma split_on_join:
  "ls \<noteq> [] \<Longrightarrow> \<forall>l \<in> set ls. n \<notin> set l \<Longrightarrow> split_on n (join [n] ls) = ls"
proof (induction ls)
  case Nil
  then show ?case by simp
next
  case (Cons l ls)
  show ?case
  proof (cases "ls = []")
    case True
    with Cons.prems show ?thesis by (simp add: split_on_single)
  next
    case False
    with Cons show ?thesis by (simp add: join_Cons split_on_append)
  qed
qed

section \<open>Properties of clean_markdown_content\<close>

lemma cleaned_line_no_newline:
  assumes "l \<in> set (cleaned_lines_of lower (split_on NL t))"
  shows "l \<noteq> [] \<and> NL \<notin> set l"
proof -
  from cleaned_line [OF assms] obtain l0 where
    l0: "l0 \<in> set (split_on NL t)" "l = strip l0" and len: "3 \<le> length l"
    by blast
  from l0(1) have "NL \<notin> set l0" by (rule split_on_no_sep)
  moreover have "set l \<subseteq> set l0"
    unfolding l0(2) using sublist_strip by (rule set_mono_sublist)
  ultimately show ?thesis using len by auto
qed

lemma lines_keep_runs:
  assumes "d \<noteq> NL"
    and "sublist [d, d, d] (join [NL] (cleaned_lines_of lower (split_on NL t)))"
  shows "sublist [d, d, d] t"
proof -
  from assms(1) have "NL \<notin> set [d, d, d]" "[d, d, d] \<noteq> []" by auto
  from sublist_join [OF this assms(2)] obtain l where
    l: "l \<in> set (cleaned_lines_of lower (split_on NL t))" "sublist [d, d, d] l"
    by blast
  from cleaned_line(3) [OF l(1)] obtain l0 where
    l0: "l0 \<in> set (split_on NL t)" "l = strip l0"
    by blast
  from l(2) have "sublist [d, d, d] l0"
    unfolding l0(2) using sublist_strip by (rule sublist_trans)
  moreover from l0(1) have "sublist l0 t" by (rule split_on_sublist)
  ultimately show ?thesis by (rule sublist_trans)
qed

lemma clean_markdown_content_no_blank_line:
  "\<not> sublist [NL, NL] (clean_markdown_content lower s)"
proof (cases "s = []")
  case True
  then show ?thesis by (simp add: clean_markdown_content_def)
next
  case False
  have "\<not> sublist [NL, NL] (join [NL] (cleaned_lines_of lower (split_on NL t)))" for t
    by (rule no_blank_line_join) (use cleaned_line_no_newline in blast)
  with False show ?thesis
    by (simp add: clean_markdown_content_def Let_def del: re_sub.simps)
qed

lemma clean_markdown_content_example:
  "clean_markdown_content ascii_lower example_markdown =
     str ''Title'' @ [NL] @ str ''some **text''"
  by (simp add: example_markdown_def clean_markdown_content_def run_of_def skip_line_def
      re_match_def ascii_lower_def isspace_def strip_def)


text \<open>
  Claim C4.  For every input, the output of \<open>clean_markdown_content\<close> contains neither
  three consecutive newlines, nor three consecutive \<open>*\<close>, nor three consecutive \<open>_\<close>
  (whatever \<open>str.lower\<close> is).
\<close>

theorem clean_markdown_content_no_long_runs:
  "\<not> sublist [NL, NL, NL] (clean_markdown_content lower s) \<and>
   \<not> sublist (str ''***'') (clean_markdown_content lower s) \<and>
   \<not> sublist (str ''___'') (clean_markdown_content lower s)"
proof (intro conjI notI)
  assume "sublist [NL, NL, NL] (clean_markdown_content lower s)"
  moreover have "sublist [NL, NL] [NL, NL, NL]"
    by (simp add: sublist_Cons_right)
  ultimately have "sublist [NL, NL] (clean_markdown_content lower s)"
    by (rule sublist_trans [rotated])
  with clean_markdown_content_no_blank_line show False by blast
next
  let ?star = "of_char CHR ''*'' :: nat" and ?us = "of_char CHR ''_'' :: nat"
  let ?t1 = "re_sub [run_of CHR 0x0A 3] [NL, NL] s"
  let ?t2 = "re_sub [run_of CHR ''*'' 3] (str ''**'') ?t1"
  let ?t3 = "re_sub [run_of CHR ''_'' 3] (str ''__'') ?t2"
  assume a: "sublist (str ''***'') (clean_markdown_content lower s)"
  then have ne: "s \<noteq> []" by (auto simp: clean_markdown_content_def)
  with a have "sublist [?star, ?star, ?star] (join [NL] (cleaned_lines_of lower (split_on NL ?t3)))"
    by (simp add: clean_markdown_content_def Let_def del: re_sub.simps)
  then have "sublist [?star, ?star, ?star] ?t3"
    by (rule lines_keep_runs [rotated]) simp
  then have "sublist [?star, ?star, ?star] ?t2"
    unfolding run_of_def [of "CHR ''_''"]
    by (rule other_run3 [rotated 4]) simp_all
  moreover have "\<not> sublist [?star, ?star, ?star] ?t2"
    unfolding run_of_def [of "CHR ''*''"] using run3_collapsed [of ?star ?t1] by simp
  ultimately show False by blast
next
  let ?us = "of_char CHR ''_'' :: nat"
  let ?t1 = "re_sub [run_of CHR 0x0A 3] [NL, NL] s"
  let ?t2 = "re_sub [run_of CHR ''*'' 3] (str ''**'') ?t1"
  let ?t3 = "re_sub [run_of CHR ''_'' 3] (str ''__'') ?t2"
  assume a: "sublist (str ''___'') (clean_markdown_content lower s)"
  then have ne: "s \<noteq> []" by (auto simp: clean_markdown_content_def)
  with a have "sublist [?us, ?us, ?us] (join [NL] (cleaned_lines_of lower (split_on NL ?t3)))"
    by (simp add: clean_markdown_content_def Let_def del: re_sub.simps)
  then have "sublist [?us, ?us, ?us] ?t3"
    by (rule lines_keep_runs [rotated]) simp
  moreover have "\<not> sublist [?us, ?us, ?us] ?t3"
    unfolding run_of_def [of "CHR ''_''"] using run3_collapsed [of ?us ?t2] by simp
  ultimately show False by blast
qed


theorem clean_markdown_content_no_long_runs_witness:
  "clean_markdown_content ascii_lower example_markdown =
     str ''Title'' @ [NL] @ str ''some **text'' \<and>
   sublist (str ''***'') example_markdown \<and>
   sublist [NL, NL, NL] example_markdown \<and>
   \<not> sublist [NL, NL, NL] (clean_markdown_content ascii_lower example_markdown) \<and>
   \<not> sublist (str ''***'') (clean_markdown_content ascii_lower example_markdown) \<and>
   \<not> sublist (str ''___'') (clean_markdown_content ascii_lower example_markdown)"
proof -
  have "sublist (str ''***'') example_markdown" "sublist [NL, NL, NL] example_markdown"
    by (simp_all add: example_markdown_def sublist_Cons_right)
  with clean_markdown_content_example
    clean_markdown_content_no_long_runs [of ascii_lower example_markdown]
  show ?thesis by blast
qed


text \<open>
  Claim C10.  The lines of a non-empty output of \<open>clean_markdown_content\<close> (its pieces
  between newlines) all have at least 3 characters after stripping, and no output contains
  two consecutive newlines, so the separator \<open>"\n\n"\<close> never occurs in it.  The empty
  output, which is returned when no line is kept, has no line.
\<close>

theorem clean_markdown_content_lines:
  "(clean_markdown_content lower s \<noteq> [] \<longrightarrow>
      (\<forall>l \<in> set (split_on NL (clean_markdown_content lower s)). 3 \<le> length (strip l))) \<and>
   \<not> sublist [NL, NL] (clean_markdown_content lower s)"
proof (intro conjI impI ballI)
  fix l
  assume ne: "clean_markdown_content lower s \<noteq> []"
    and l: "l \<in> set (split_on NL (clean_markdown_content lower s))"
  let ?ls = "cleaned_lines_of lower (split_on NL
      (re_sub [run_of CHR ''_'' 3] (str ''__'')
        (re_sub [run_of CHR ''*'' 3] (str ''**'') (re_sub [run_of CHR 0x0A 3] [NL, NL] s))))"
  from ne have out: "clean_markdown_content lower s = join [NL] ?ls"
    by (auto simp: clean_markdown_content_def Let_def simp del: re_sub.simps)
  with ne have "?ls \<noteq> []" by auto
  moreover have "\<forall>l \<in> set ?ls. NL \<notin> set l"
    using cleaned_line_no_newline by blast
  ultimately have "split_on NL (join [NL] ?ls) = ?ls"
    by (rule split_on_join)
  with l out have "l \<in> set ?ls" by simp
  from cleaned_line(1,2) [OF this] show "3 \<le> length (strip l)" by simp
next
  show "\<not> sublist [NL, NL] (clean_markdown_content lower s)"
    by (rule clean_markdown_content_no_blank_line)
qed

theorem clean_markdown_content_lines_witness:
  "clean_markdown_content ascii_lower example_markdown \<noteq> [] \<and>
   split_on NL (clean_markdown_content ascii_lower example_markdown) =
     [str ''Title'', str ''some **text''] \<and>
   list_all (\<lambda>l. 3 \<le> length (strip l))
     (split_on NL (clean_markdown_content ascii_lower example_markdown)) \<and>
   \<not> sublist [NL, NL] (clean_markdown_content ascii_lower example_markdown)"
proof -
  have ne: "clean_markdown_content ascii_lower example_markdown \<noteq> []"
    by (simp add: clean_markdown_content_example)
  have sp: "split_on NL (clean_markdown_content ascii_lower example_markdown) =
      [str ''Title'', str ''some **text'']"
    by (simp add: clean_markdown_content_example)
  from clean_markdown_content_lines [of ascii_lower example_markdown] ne
  have "\<forall>l \<in> set (split_on NL (clean_markdown_content ascii_lower example_markdown)).
      3 \<le> length (strip l)"
    and "\<not> sublist [NL, NL] (clean_markdown_content ascii_lower example_markdown)"
    by blast+
  with ne sp show ?thesis by (simp only: list_all_iff) blast
qed

section \<open>Patterns that cannot match\<close>

lemma re_sub_remove:
  "re_sub [(P, 1, Some 1)] [] s = filter (\<lambda>c. \<not> P c) s"
proof (induction s)
  case Nil
  then show ?case by simp
next
  case (Cons x xs)
  then show ?case by (cases "P x") simp_all
qed

lemma match_here_first_fails:
  assumes "0 < lo" "s = [] \<or> \<not> P (hd s)"
  shows "match_here ((P, lo, hi) # its) d s = None"
proof -
  from assms(2) have "takeWhile P s = []" by (cases s) auto
  with assms(1) show ?thesis by (cases hi) simp_all
qed

lemma re_sub_first_never:
  assumes "0 < lo" "\<forall>c \<in> set s. \<not> P c"
  shows "re_sub ((P, lo, hi) # its) rep s = s"
  using assms(2)
proof (induction s)
  case Nil
  then show ?case by simp
next
  case (Cons x xs)
  then have "match_here ((P, lo, hi) # its) False (x # xs) = None"
    using match_here_first_fails [OF assms(1), of "x # xs" P hi its False] by simp
  with Cons show ?case by (simp del: match_here.simps)
qed


section \<open>Properties of save_docs_to_json\<close>

text \<open>\<open>clean_text\<close> on the two example documents, one substitution at a time.\<close>

lemma clean_text_long_doc:
  "clean_text (page_content long_doc) =
     str ''Web scraping is the automated extraction of data from web sites...''"
proof -
  let ?s1 = "str '' Web scraping is the automated extraction of data from web sites..... ''"
  have s1: "re_sub [(isspace, 1, None)] (str '' '') (page_content long_doc) = ?s1"
    by (simp add: long_doc_def isspace_def)
  have s2: "re_sub [(is_control, 1, Some 1)] [] ?s1 = ?s1"
    unfolding re_sub_remove by (simp add: is_control_def)
  have s3: "re_sub [lit CHR 0x0A, (isspace, 0, None), lit CHR 0x0A, (isspace, 0, None),
      run_of CHR 0x0A 1] [NL, NL] ?s1 = ?s1"
    unfolding lit_def by (rule re_sub_first_never) simp_all
  have s4: "re_sub [run_of CHR 0x09 1] (str '' '') ?s1 = ?s1"
    unfolding run_of_def by (rule re_sub_first_never) simp_all
  let ?s5 = "str '' Web scraping is the automated extraction of data from web sites... ''"
  have s5: "re_sub [run_of CHR ''.'' 3] (str ''...'') ?s1 = ?s5"
    by (simp add: run_of_def)
  have s6: "re_sub [run_of CHR ''-'' 3] (str ''---'') ?s5 = ?s5"
    unfolding run_of_def by (rule re_sub_first_never) simp_all
  have s7: "strip ?s5 = str ''Web scraping is the automated extraction of data from web sites...''"
    by (simp add: strip_def isspace_def)
  have ne: "page_content long_doc \<noteq> []"
    by (simp add: long_doc_def)
  show ?thesis
    unfolding clean_text_def Let_def using ne by (simp only: s1 s2 s3 s4 s5 s6 s7 if_False)
qed

lemma clean_text_short_doc: "clean_text (page_content short_doc) = str ''too short''"
proof -
  let ?s = "str ''too short''"
  have s1: "re_sub [(isspace, 1, None)] (str '' '') (page_content short_doc) = ?s"
    by (simp add: short_doc_def isspace_def)
  have s2: "re_sub [(is_control, 1, Some 1)] [] ?s = ?s"
    unfolding re_sub_remove by (simp add: is_control_def)
  have s3: "re_sub [lit CHR 0x0A, (isspace, 0, None), lit CHR 0x0A, (isspace, 0, None),
      run_of CHR 0x0A 1] [NL, NL] ?s = ?s"
    unfolding lit_def by (rule re_sub_first_never) simp_all
  have s4: "re_sub [run_of CHR 0x09 1] (str '' '') ?s = ?s"
    unfolding run_of_def by (rule re_sub_first_never) simp_all
  have s5: "re_sub [run_of CHR ''.'' 3] (str ''...'') ?s = ?s"
    unfolding run_of_def by (rule re_sub_first_never) simp_all
  have s6: "re_sub [run_of CHR ''-'' 3] (str ''---'') ?s = ?s"
    unfolding run_of_def by (rule re_sub_first_never) simp_all
  have s7: "strip ?s = ?s"
    by (simp add: strip_def isspace_def)
  have ne: "page_content short_doc \<noteq> []"
    by (simp add: short_doc_def)
  show ?thesis
    unfolding clean_text_def Let_def using ne by (simp only: s1 s2 s3 s4 s5 s6 s7 if_False)
qed

lemma cleaned_docs_of_eq:
  "cleaned_docs_of docs =
     map (\<lambda>doc. \<lparr>entry_page_content = clean_text (page_content doc),
                 entry_metadata = metadata doc,
                 content_length = length (clean_text (page_content doc))\<rparr>)
       (filter (\<lambda>doc. 50 < length (clean_text (page_content doc))) docs)"
  by (induction docs) (auto simp: Let_def)

text \<open>
  Claim C6.  When \<open>save_docs_to_json\<close> writes the file, the array written has one
  element for every document whose cleaned content is longer than 50 characters, in the
  order of the input: its \<open>page_content\<close> is \<open>clean_text\<close> of the document's content, its
  \<open>metadata\<close> the document's, its \<open>content_length\<close> the length of its \<open>page_content\<close>,
  which exceeds 50.  A document whose cleaned content has at most 50 characters adds no
  element, and the returned number is the number of elements.
\<close>

theorem save_docs_to_json_entries:
  assumes "save_docs_to_json makedirs_ok dump_ok docs filename = Inr (Some written, n)"
  shows "written =
           map (\<lambda>doc. \<lparr>entry_page_content = clean_text (page_content doc),
                       entry_metadata = metadata doc,
                       content_length = length (clean_text (page_content doc))\<rparr>)
             (filter (\<lambda>doc. 50 < length (clean_text (page_content doc))) docs) \<and>
         (\<forall>e \<in> set written.
            content_length e = length (entry_page_content e) \<and>
            50 < length (entry_page_content e) \<and>
            (\<exists>doc \<in> set docs. entry_page_content e = clean_text (page_content doc) \<and>
               entry_metadata e = metadata doc)) \<and>
         (\<forall>doc \<in> set docs. length (clean_text (page_content doc)) \<le> 50 \<longrightarrow>
            (\<forall>e \<in> set written. entry_page_content e \<noteq> clean_text (page_content doc))) \<and>
         n = length written"
proof -
  from assms have w: "written = cleaned_docs_of docs" and n: "n = length written"
    by (auto simp: save_docs_to_json_def Let_def split: if_splits)
  show ?thesis
    unfolding w n cleaned_docs_of_eq by auto
qed

theorem save_docs_to_json_entries_witness:
  "save_docs_to_json True True [long_doc, short_doc] (str ''data/processed/a_chunks.json'') =
     Inr (Some [\<lparr>entry_page_content =
                   str ''Web scraping is the automated extraction of data from web sites...'',
                 entry_metadata = metadata long_doc,
                 content_length = 66\<rparr>], 1) \<and>
   length (clean_text (page_content short_doc)) \<le> 50"
proof -
  let ?e = "\<lparr>entry_page_content =
      str ''Web scraping is the automated extraction of data from web sites...'',
      entry_metadata = metadata long_doc, content_length = 66\<rparr>"
  have short: "length (clean_text (page_content short_doc)) \<le> 50"
    by (simp add: clean_text_short_doc)
  have c: "cleaned_docs_of [long_doc, short_doc] = [?e]"
    by (simp add: clean_text_long_doc clean_text_short_doc)
  have s: "save_docs_to_json True True [long_doc, short_doc] (str ''data/processed/a_chunks.json'') =
      Inr (Some [?e], 1)"
    by (simp add: save_docs_to_json_def c del: cleaned_docs_of.simps)
  from save_docs_to_json_entries [OF s]
  have "\<forall>e \<in> set [?e]. content_length e = length (entry_page_content e) \<and>
      50 < length (entry_page_content e)"
    by blast
  with s short show ?thesis by blast
qed

section \<open>Properties of create_rag_summary\<close>





section \<open>Properties of scrape_and_process_url\<close>

lemma re_match_star_all:
  assumes "\<forall>c \<in> set s. P c"
  shows "re_match [(P, 0, None)] s"
proof -
  from assms have tw: "takeWhile P s = s" by simp
  show ?thesis by (simp add: re_match_def Let_def tw)
qed

lemma valid_chunk:
  assumes "chunk \<in> set (valid_chunks_of isalnum chunks)"
  shows "strip (page_content chunk) = page_content chunk \<and>
         50 < length (page_content chunk) \<and>
         (\<exists>c \<in> set (page_content chunk). is_word isalnum c) \<and>
         (\<exists>chunk0 \<in> set chunks. chunk = chunk0\<lparr>page_content := strip (page_content chunk0)\<rparr>)"
  using assms
proof (induction chunks)
  case Nil
  then show ?case by simp
next
  case (Cons a chunks)
  let ?c = "strip (page_content a)"
  show ?case
  proof (cases "chunk = a\<lparr>page_content := ?c\<rparr> \<and> 50 < length ?c \<and>
      \<not> re_match [(\<lambda>c. isspace c \<or> \<not> is_word isalnum c, 0, None)] ?c")
    case True
    then have "\<not> (\<forall>c \<in> set ?c. isspace c \<or> \<not> is_word isalnum c)"
      using re_match_star_all [of ?c "\<lambda>c. isspace c \<or> \<not> is_word isalnum c"] by blast
    with True show ?thesis by (auto simp: strip_idem)
  next
    case False
    with Cons.prems have "chunk \<in> set (valid_chunks_of isalnum chunks)"
      by (auto simp: Let_def split: if_splits)
    with Cons.IH show ?thesis by auto
  qed
qed

lemma scrape_Some:
  assumes "scrape_and_process_url env url = Inr (Some chunks)"
  shows "\<exists>base_metadata markdown_content raw.
           process_markdown env base_metadata markdown_content = Some chunks \<and>
           markdown_content = clean_markdown_content (str_lower env) raw \<and>
           \<not> insufficient markdown_content"
  using assms
  by (auto simp: scrape_and_process_url_def Let_def
      split: sum.splits bool.splits browsing.splits option.splits prod.splits if_splits)

lemma scrape_loaded:
  assumes "check_robots_txt (robots env) url = Inr True"
    and "goto env url = Loaded pg"
    and "extract_html pg = (html_content, selector_used)"
    and "html_content \<noteq> []"
    and "handle env html_content = Some raw"
  shows "scrape_and_process_url env url =
     Inr (let markdown_content = clean_markdown_content (str_lower env) raw
          in if insufficient markdown_content then None
             else process_markdown env
               (base_metadata_of url (page_title_of pg) (page_description_of pg) selector_used)
               markdown_content)"
  using assms by (simp add: scrape_and_process_url_def Let_def)

text \<open>
  Claim C3.  When \<open>scrape_and_process_url\<close> returns a list of chunks, the list is not
  empty and the content of every chunk is stripped, longer than 50 characters and
  contains a word character.  When the page is loaded and converted and no chunk passes
  the final filter, the function returns \<open>None\<close>: it never returns the empty list, and
  the exceptions of the libraries inside the \<open>try\<close> are \<open>None\<close> as well.
\<close>

theorem scrape_and_process_url_valid_chunks:
  "(scrape_and_process_url env url = Inr (Some chunks) \<longrightarrow>
      chunks \<noteq> [] \<and>
      (\<forall>chunk \<in> set chunks.
         strip (page_content chunk) = page_content chunk \<and>
         50 < length (page_content chunk) \<and>
         (\<exists>c \<in> set (page_content chunk). is_word (str_isalnum env) c))) \<and>
   (check_robots_txt (robots env) url = Inr True \<and>
    goto env url = Loaded pg \<and>
    extract_html pg = (html_content, selector_used) \<and>
    html_content \<noteq> [] \<and>
    handle env html_content = Some raw \<and>
    chunks_of env
      (base_metadata_of url (page_title_of pg) (page_description_of pg) selector_used)
      (clean_markdown_content (str_lower env) raw) = Some candidates \<and>
    valid_chunks_of (str_isalnum env) candidates = [] \<longrightarrow>
      scrape_and_process_url env url = Inr None)"
proof (intro conjI impI)
  assume "scrape_and_process_url env url = Inr (Some chunks)"
  from scrape_Some [OF this] obtain b m where "process_markdown env b m = Some chunks"
    by blast
  then obtain cs where cs: "chunks = valid_chunks_of (str_isalnum env) cs" and ne: "chunks \<noteq> []"
    by (auto simp: process_markdown_def Let_def split: option.splits if_splits)
  show "chunks \<noteq> []" by (rule ne)
  show "\<forall>chunk \<in> set chunks.
         strip (page_content chunk) = page_content chunk \<and>
         50 < length (page_content chunk) \<and>
         (\<exists>c \<in> set (page_content chunk). is_word (str_isalnum env) c)"
    unfolding cs using valid_chunk [of _ "str_isalnum env" cs] by blast
next
  assume a: "check_robots_txt (robots env) url = Inr True \<and>
    goto env url = Loaded pg \<and>
    extract_html pg = (html_content, selector_used) \<and>
    html_content \<noteq> [] \<and>
    handle env html_content = Some raw \<and>
    chunks_of env
      (base_metadata_of url (page_title_of pg) (page_description_of pg) selector_used)
      (clean_markdown_content (str_lower env) raw) = Some candidates \<and>
    valid_chunks_of (str_isalnum env) candidates = []"
  then have "process_markdown env
      (base_metadata_of url (page_title_of pg) (page_description_of pg) selector_used)
      (clean_markdown_content (str_lower env) raw) = None"
    by (simp add: process_markdown_def)
  moreover from a have "check_robots_txt (robots env) url = Inr True"
    "goto env url = Loaded pg" "extract_html pg = (html_content, selector_used)"
    "html_content \<noteq> []" "handle env html_content = Some raw"
    by blast+
  then have "scrape_and_process_url env url =
     Inr (let markdown_content = clean_markdown_content (str_lower env) raw
          in if insufficient markdown_content then None
             else process_markdown env
               (base_metadata_of url (page_title_of pg) (page_description_of pg) selector_used)
               markdown_content)"
    by (rule scrape_loaded)
  ultimately show "scrape_and_process_url env url = Inr None"
    by (simp add: Let_def)
qed

text \<open>The function on the example page.\<close>

lemma clean_example_text:
  "clean_markdown_content ascii_lower example_text = example_text"
  by (simp add: example_text_def clean_markdown_content_def run_of_def skip_line_def
      re_match_def ascii_lower_def isspace_def strip_def)

lemma strip_example_text: "strip example_text = example_text"
  by (simp add: example_text_def strip_def isspace_def)

lemma length_example_text: "length example_text = 100"
  by (simp add: example_text_def)

lemma example_text_kept:
  "valid_chunks_of ascii_isalnum [\<lparr>page_content = example_text, metadata = md\<rparr>] =
     [\<lparr>page_content = example_text, metadata = md\<rparr>]"
proof -
  have "\<not> re_match [(\<lambda>c. isspace c \<or> \<not> is_word ascii_isalnum c, 0, None)] example_text"
    by (simp add: example_text_def re_match_def is_word_def ascii_isalnum_def isspace_def)
  then show ?thesis
    by (simp add: strip_example_text length_example_text)
qed

lemma extract_example_page: "extract_html example_page = (str ''<p>...</p>'', str ''article'')"
  by (simp add: extract_html_def example_page_def content_selectors_def)

lemma scrape_example:
  "scrape_and_process_url example_env example_url =
     Inr (Some [\<lparr>page_content = example_text, metadata = example_metadata\<rparr>])"
proof -
  have r: "check_robots_txt (robots example_env) example_url = Inr True"
    by (simp add: check_robots_txt_def example_env_def allowing_robots_def)
  have g: "goto example_env example_url = Loaded example_page"
    by (simp add: example_env_def)
  have h: "handle example_env html = Some example_text" for html
    by (simp add: example_env_def)
  have l: "str_lower example_env = ascii_lower" and a: "str_isalnum example_env = ascii_isalnum"
    by (simp_all add: example_env_def)
  have "example_text \<noteq> []"
    using length_example_text by auto
  then have i: "\<not> insufficient example_text"
    by (simp add: insufficient_def strip_example_text length_example_text)
  have t: "page_title_of example_page = str ''Example''"
    and d: "page_description_of example_page = []"
    by (simp_all add: page_title_of_def page_description_of_def example_page_def)
  have c: "chunks_of example_env md example_text =
      Some [\<lparr>page_content = example_text, metadata = md\<rparr>]" for md
    by (simp add: chunks_of_def create_documents_def example_env_def)
  have p: "process_markdown example_env md example_text =
      Some [\<lparr>page_content = example_text, metadata = md\<rparr>]" for md
    by (simp add: process_markdown_def c a example_text_kept del: valid_chunks_of.simps)
  show ?thesis
    unfolding scrape_and_process_url_def r g
    by (simp add: extract_example_page h l clean_example_text i t d p example_metadata_def)
qed

theorem scrape_and_process_url_valid_chunks_witness:
  "scrape_and_process_url example_env example_url =
     Inr (Some [\<lparr>page_content = example_text, metadata = example_metadata\<rparr>]) \<and>
   strip example_text = example_text \<and>
   50 < length example_text \<and>
   (\<exists>c \<in> set example_text. is_word ascii_isalnum c) \<and>
   chunks_of dropping_env example_metadata example_text =
     Some [\<lparr>page_content = str ''--- ... ---'', metadata = example_metadata\<rparr>] \<and>
   scrape_and_process_url dropping_env example_url = Inr None"
proof -
  let ?d = "\<lparr>page_content = str ''--- ... ---'', metadata = example_metadata\<rparr>"
  have a: "str_isalnum example_env = ascii_isalnum" "str_isalnum dropping_env = ascii_isalnum"
    and l: "str_lower dropping_env = ascii_lower"
    by (simp_all add: example_env_def dropping_env_def)
  have r: "check_robots_txt (robots dropping_env) example_url = Inr True"
    by (simp add: check_robots_txt_def example_env_def dropping_env_def allowing_robots_def)
  have g: "goto dropping_env example_url = Loaded example_page"
    by (simp add: example_env_def dropping_env_def)
  have ne: "str ''<p>...</p>'' \<noteq> []" by simp
  have h: "handle dropping_env (str ''<p>...</p>'') = Some example_text"
    by (simp add: example_env_def dropping_env_def)
  have b: "base_metadata_of example_url (page_title_of example_page)
      (page_description_of example_page) (str ''article'') = example_metadata"
    by (simp add: page_title_of_def page_description_of_def example_page_def
        example_metadata_def)
  have c: "chunks_of dropping_env example_metadata example_text = Some [?d]"
    by (simp add: chunks_of_def create_documents_def example_env_def dropping_env_def)
  have c': "chunks_of dropping_env
      (base_metadata_of example_url (page_title_of example_page)
         (page_description_of example_page) (str ''article''))
      (clean_markdown_content (str_lower dropping_env) example_text) = Some [?d]"
    unfolding b l clean_example_text by (rule c)
  have v: "valid_chunks_of (str_isalnum dropping_env) [?d] = []"
    by (simp add: a strip_def isspace_def)
  note t = scrape_and_process_url_valid_chunks
  from t [of example_env example_url
      "[\<lparr>page_content = example_text, metadata = example_metadata\<rparr>]"] scrape_example
  have "strip example_text = example_text \<and> 50 < length example_text \<and>
      (\<exists>c \<in> set example_text. is_word ascii_isalnum c)"
    by (simp add: a)
  moreover from t [of dropping_env example_url _ example_page "str ''<p>...</p>''"
      "str ''article''" example_text "[?d]"] r g extract_example_page ne h c' v
  have "scrape_and_process_url dropping_env example_url = Inr None"
    by blast
  ultimately show ?thesis using scrape_example c by blast
qed

lemma insufficient_iff: "insufficient m \<longleftrightarrow> length (strip m) < 100"
  by (auto simp: insufficient_def)

text \<open>
  Claim C2 as stated fails at exactly 100 characters: the test is \<open>len(...) < 100\<close>, so
  a cleaned text whose stripped length is 100 goes on to the chunking, and here a chunk
  is returned.
\<close>

theorem scrape_and_process_url_exactly_100:
  "handle example_env (str ''<p>...</p>'') = Some example_text \<and>
   length (strip (clean_markdown_content (str_lower example_env) example_text)) = 100 \<and>
   scrape_and_process_url example_env example_url =
     Inr (Some [\<lparr>page_content = example_text, metadata = example_metadata\<rparr>])"
proof -
  have "str_lower example_env = ascii_lower" "handle example_env (str ''<p>...</p>'') = Some example_text"
    by (simp_all add: example_env_def)
  then show ?thesis
    by (simp add: clean_example_text strip_example_text length_example_text scrape_example)
qed

text \<open>
  Claim C2, amended.  Once the page is loaded and converted, \<open>scrape_and_process_url\<close>
  returns \<open>None\<close> at the test of the cleaned markdown exactly when its stripped content
  has fewer than 100 characters; a cleaned text of stripped length 100 or more passes
  the test, and the result is then that of the chunking and the final filter.
\<close>

theorem scrape_and_process_url_content_gate:
  assumes "check_robots_txt (robots env) url = Inr True"
    and "goto env url = Loaded pg"
    and "extract_html pg = (html_content, selector_used)"
    and "html_content \<noteq> []"
    and "handle env html_content = Some raw"
  shows "(length (strip (clean_markdown_content (str_lower env) raw)) < 100 \<longrightarrow>
           scrape_and_process_url env url = Inr None) \<and>
         (100 \<le> length (strip (clean_markdown_content (str_lower env) raw)) \<longrightarrow>
           scrape_and_process_url env url =
             Inr (process_markdown env
               (base_metadata_of url (page_title_of pg) (page_description_of pg) selector_used)
               (clean_markdown_content (str_lower env) raw)))"
  using assms
  by (simp add: scrape_and_process_url_def Let_def insufficient_iff)

theorem scrape_and_process_url_content_gate_witness:
  "length (strip (clean_markdown_content (str_lower short_env) (str ''Too short.''))) = 10 \<and>
   scrape_and_process_url short_env example_url = Inr None \<and>
   length (strip (clean_markdown_content (str_lower example_env) example_text)) = 100 \<and>
   scrape_and_process_url example_env example_url =
     Inr (process_markdown example_env
       (base_metadata_of example_url (page_title_of example_page)
          (page_description_of example_page) (str ''article''))
       (clean_markdown_content (str_lower example_env) example_text)) \<and>
   process_markdown example_env
       (base_metadata_of example_url (page_title_of example_page)
          (page_description_of example_page) (str ''article''))
       (clean_markdown_content (str_lower example_env) example_text) =
     Some [\<lparr>page_content = example_text, metadata = example_metadata\<rparr>]"
proof -
  note t = scrape_and_process_url_content_gate
  have l: "str_lower example_env = ascii_lower" "str_lower short_env = ascii_lower"
    by (simp_all add: example_env_def short_env_def)
  have r: "check_robots_txt (robots example_env) example_url = Inr True"
    "check_robots_txt (robots short_env) example_url = Inr True"
    by (simp_all add: check_robots_txt_def example_env_def short_env_def allowing_robots_def)
  have g: "goto example_env example_url = Loaded example_page"
    "goto short_env example_url = Loaded example_page"
    by (simp_all add: example_env_def short_env_def)
  have ne: "str ''<p>...</p>'' \<noteq> []" by simp
  have h: "handle example_env (str ''<p>...</p>'') = Some example_text"
    "handle short_env (str ''<p>...</p>'') = Some (str ''Too short.'')"
    by (simp_all add: example_env_def short_env_def)
  have s: "clean_markdown_content ascii_lower (str ''Too short.'') = str ''Too short.''"
    by (simp add: clean_markdown_content_def run_of_def skip_line_def
        re_match_def ascii_lower_def isspace_def strip_def)
  have s10: "length (strip (clean_markdown_content (str_lower short_env) (str ''Too short.''))) = 10"
    unfolding l s by (simp add: strip_def isspace_def)
  have e100: "length (strip (clean_markdown_content (str_lower example_env) example_text)) = 100"
    unfolding l clean_example_text strip_example_text by (rule length_example_text)
  from t [OF r(2) g(2) extract_example_page ne h(2)] s10
  have a: "scrape_and_process_url short_env example_url = Inr None"
    by simp
  from t [OF r(1) g(1) extract_example_page ne h(1)] e100
  have b: "scrape_and_process_url example_env example_url =
     Inr (process_markdown example_env
       (base_metadata_of example_url (page_title_of example_page)
          (page_description_of example_page) (str ''article''))
       (clean_markdown_content (str_lower example_env) example_text))"
    by simp
  from b scrape_example
  have c: "process_markdown example_env
       (base_metadata_of example_url (page_title_of example_page)
          (page_description_of example_page) (str ''article''))
       (clean_markdown_content (str_lower example_env) example_text) =
     Some [\<lparr>page_content = example_text, metadata = example_metadata\<rparr>]"
    by simp
  from s10 a e100 b c show ?thesis by blast
qed

subsection \<open>The header context\<close>

lemma clean_header_text:
  "clean_markdown_content ascii_lower header_markdown = header_text"
  by (simp add: header_markdown_def header_text_def example_text_def clean_markdown_content_def run_of_def
      skip_line_def re_match_def ascii_lower_def isspace_def strip_def)

lemma strip_header_text: "strip header_text = header_text"
  by (simp add: header_text_def example_text_def strip_def isspace_def)

lemma length_header_text: "length header_text = 108"
  by (simp add: header_text_def example_text_def)

lemma header_text_kept:
  "valid_chunks_of ascii_isalnum [\<lparr>page_content = header_text, metadata = md\<rparr>] =
     [\<lparr>page_content = header_text, metadata = md\<rparr>]"
proof -
  have "\<not> re_match [(\<lambda>c. isspace c \<or> \<not> is_word ascii_isalnum c, 0, None)] header_text"
    by (simp add: header_text_def example_text_def re_match_def is_word_def ascii_isalnum_def
        isspace_def)
  then show ?thesis
    by (simp add: strip_header_text length_header_text)
qed

lemma header_context_example:
  "add_header_context example_metadata
     \<lparr>page_content = header_text, metadata = [str ''H1'' \<mapsto> str ''Intro'']\<rparr> =
   \<lparr>page_content = header_text, metadata = header_metadata\<rparr>"
  by (simp add: add_header_context_def header_metadata_def example_metadata_def
      base_metadata_of_def dict_get_def map_add_def)

text \<open>
  Claim C1 at a header split.  The splitter labels the first-level header \<open>H1\<close>, as
  \<open>headers_to_split_on\<close> says, but the loop looks the header up under \<open>Header 1\<close> and
  \<open>Header 2\<close>: the returned chunk carries the header text under \<open>H1\<close> and has no
  \<open>section\<close>.
\<close>

theorem scrape_and_process_url_section_missing:
  "scrape_and_process_url header_env example_url =
     Inr (Some [\<lparr>page_content = header_text, metadata = header_metadata\<rparr>]) \<and>
   header_metadata (str ''H1'') = Some (str ''Intro'') \<and>
   header_metadata (str ''section'') = None"
proof -
  have r: "check_robots_txt (robots header_env) example_url = Inr True"
    by (simp add: check_robots_txt_def header_env_def example_env_def allowing_robots_def)
  have g: "goto header_env example_url = Loaded example_page"
    by (simp add: header_env_def example_env_def)
  have h: "handle header_env html = Some header_markdown" for html
    by (simp add: header_env_def)
  have l: "str_lower header_env = ascii_lower" and a: "str_isalnum header_env = ascii_isalnum"
    by (simp_all add: header_env_def example_env_def)
  have "header_text \<noteq> []"
    using length_header_text by auto
  then have i: "\<not> insufficient header_text"
    by (simp add: insufficient_def strip_header_text length_header_text)
  have t: "page_title_of example_page = str ''Example''"
    and d: "page_description_of example_page = []"
    by (simp_all add: page_title_of_def page_description_of_def example_page_def)
  have hs: "header_split header_env headers_to_split_on header_text =
      Some [\<lparr>page_content = header_text, metadata = [str ''H1'' \<mapsto> str ''Intro'']\<rparr>]"
    by (simp add: header_env_def headers_to_split_on_def)
  have rs: "recursive_split header_env = (\<lambda>text. Some [text])"
    by (simp add: header_env_def example_env_def)
  have c: "chunks_of header_env example_metadata header_text =
      Some [\<lparr>page_content = header_text, metadata = header_metadata\<rparr>]"
  proof -
    have "final_chunks_of (\<lambda>text. Some [text]) example_metadata
        [\<lparr>page_content = header_text, metadata = [str ''H1'' \<mapsto> str ''Intro'']\<rparr>] =
      Some [\<lparr>page_content = header_text, metadata = header_metadata\<rparr>]"
      unfolding final_chunks_of.simps Let_def header_context_example
      by (simp add: create_documents_def)
    then show ?thesis
      unfolding chunks_of_def hs rs by simp
  qed
  have p: "process_markdown header_env example_metadata header_text =
      Some [\<lparr>page_content = header_text, metadata = header_metadata\<rparr>]"
    by (simp add: process_markdown_def c a header_text_kept del: valid_chunks_of.simps)
  have ne: "str ''<p>...</p>'' \<noteq> []" by simp
  have b: "base_metadata_of example_url (page_title_of example_page)
      (page_description_of example_page) (str ''article'') = example_metadata"
    unfolding t d example_metadata_def ..
  have s: "scrape_and_process_url header_env example_url =
     Inr (Some [\<lparr>page_content = header_text, metadata = header_metadata\<rparr>])"
    unfolding scrape_loaded [OF r g extract_example_page ne h] l clean_header_text b Let_def
    using i p by simp
  have m: "header_metadata (str ''H1'') = Some (str ''Intro'')"
    "header_metadata (str ''section'') = None"
    by (simp_all add: header_metadata_def example_metadata_def base_metadata_of_def map_add_def)
  from s m show ?thesis by blast
qed

text \<open>
  More generally, a split without the keys \<open>Header 1\<close> and \<open>Header 2\<close> gets no
  \<open>section\<close> from the loop.
\<close>

lemma add_header_context_no_section:
  assumes "metadata split (str ''Header 1'') = None" "metadata split (str ''Header 2'') = None"
  shows "metadata (add_header_context
            (base_metadata_of url page_title page_description selector_used) split)
           (str ''section'') = metadata split (str ''section'')"
  using assms
  by (simp add: add_header_context_def base_metadata_of_def dict_get_def map_add_def Let_def)

section \<open>Properties of the vector store\<close>

lemma create_vector_store_Some:
  assumes "create_vector_store (spec_faiss distance) p documents = (p1, Some store)"
  shows "p1 = p\<lparr>vector_store := Some store\<rparr>"
    and "embedding_function store = embeddings p"
    and "index store =
      map (\<lambda>doc. (embeddings p (page_content doc), doc))
        (filter (\<lambda>doc. 30 < length (strip (page_content doc))) documents)"
  using assms
  by (auto simp: create_vector_store_def spec_faiss_def Let_def split: if_splits)

lemma save_vector_store_True:
  assumes "save_vector_store (spec_faiss distance) p1 path d = (d1, True)"
  shows "\<exists>store. vector_store p1 = Some store \<and>
           persisted d1 (path_or_default path) = Some (index store)"
  using assms
  by (auto simp: save_vector_store_def spec_faiss_def Let_def
      split: option.splits if_splits)

text \<open>
  Claim C8.  With the vector store of the specification: when a store is built from
  the chunks \<open>C\<close> and \<open>save_vector_store\<close> has persisted it, \<open>load_vector_store\<close> with
  the same path, in a processor with the same embedding model, loads a store, and
  \<open>similarity_search\<close> then returns for every query and every \<open>k\<close> the same documents
  in the same order as before persistence.
\<close>

theorem vector_store_round_trip:
  assumes "create_vector_store (spec_faiss distance) p C = (p1, Some store)"
    and "save_vector_store (spec_faiss distance) p1 path d = (d1, True)"
    and "embeddings p' = embeddings p"
  shows "\<exists>reloaded.
           load_vector_store (spec_faiss distance) p' path d1 =
             (p'\<lparr>vector_store := Some reloaded\<rparr>, Some reloaded) \<and>
           similarity_search (spec_faiss distance) (p'\<lparr>vector_store := Some reloaded\<rparr>) q k =
             similarity_search (spec_faiss distance) p1 q k"
proof -
  note b = create_vector_store_Some [OF assms(1)]
  from save_vector_store_True [OF assms(2)] b(1)
  have saved: "persisted d1 (path_or_default path) = Some (index store)"
    by auto
  let ?r = "\<lparr>index = index store, embedding_function = embeddings p'\<rparr>"
  have l: "load_vector_store (spec_faiss distance) p' path d1 =
      (p'\<lparr>vector_store := Some ?r\<rparr>, Some ?r)"
    by (simp add: load_vector_store_def spec_faiss_def saved)
  have "?r = store"
    using b(2) assms(3) by simp
  then have "similarity_search (spec_faiss distance) (p'\<lparr>vector_store := Some ?r\<rparr>) q k =
      similarity_search (spec_faiss distance) p1 q k"
    unfolding b(1) by (simp add: similarity_search_def)
  with l show ?thesis by blast
qed

theorem vector_store_round_trip_witness:
  "create_vector_store (spec_faiss length_distance) example_processor
      [model_chunk, short_doc, scraping_chunk] =
     (built_processor, Some example_store) \<and>
   save_vector_store (spec_faiss length_distance) built_processor None empty_disk =
     (saved_disk, True) \<and>
   (\<exists>reloaded.
      load_vector_store (spec_faiss length_distance) example_processor None saved_disk =
        (example_processor\<lparr>vector_store := Some reloaded\<rparr>, Some reloaded) \<and>
      similarity_search (spec_faiss length_distance)
          (example_processor\<lparr>vector_store := Some reloaded\<rparr>) (str ''What is web scraping?'') 1 =
        similarity_search (spec_faiss length_distance) built_processor
          (str ''What is web scraping?'') 1) \<and>
   similarity_search (spec_faiss length_distance) built_processor
       (str ''What is web scraping?'') 1 = [scraping_chunk]"
proof -
  have c: "create_vector_store (spec_faiss length_distance) example_processor
      [model_chunk, short_doc, scraping_chunk] = (built_processor, Some example_store)"
    by (simp add: create_vector_store_def spec_faiss_def example_processor_def
        built_processor_def example_store_def model_chunk_def scraping_chunk_def short_doc_def
        strip_def isspace_def)
  have s: "save_vector_store (spec_faiss length_distance) built_processor None empty_disk =
      (saved_disk, True)"
    by (simp add: save_vector_store_def spec_faiss_def built_processor_def empty_disk_def
        saved_disk_def path_or_default_def)
  have q: "similarity_search (spec_faiss length_distance) built_processor
      (str ''What is web scraping?'') 1 = [scraping_chunk]"
    by (simp add: similarity_search_def spec_faiss_def built_processor_def example_store_def
        nearest_def length_distance_def model_chunk_def scraping_chunk_def)
  from vector_store_round_trip [OF c s refl, of "str ''What is web scraping?''" 1] c s q
  show ?thesis by blast
qed

end
